theory Spec2Isabelle
  imports Complex_Main "HOL-Library.AList"
begin

section \<open>Shared data: symbols, errors, published signals\<close>

text \<open>
  The repository holds three variants of one service: \<^verbatim>\<open>api_utils.py\<close> (classifier with
  risk adjustment), \<^verbatim>\<open>web.py\<close> (classifier, no risk adjustment) and \<^verbatim>\<open>test.py\<close>
  (indicator thresholds). Each definition below names the file and function it embeds.

  A symbol is a Python string. Every exception class is a value of \<open>py_error\<close>;
  a computation that can raise returns \<open>py_error + 'a\<close> with \<open>Inl\<close> the exception
  that escapes.
\<close>

type_synonym symbol = string

datatype py_error =
    ValueError | KeyError | IndexError | TypeError | AttributeError
  | ClientError | TimeoutError | HTTPError | JSONDecodeError | MaxRetryError
  | ZeroDivisionError | OverflowError

text \<open>
  The classifier variants publish one display string per symbol. The string is one of
  five fixed tags or a direction with a percentage printed by \<^verbatim>\<open>:.1f\<close>; the datatype keeps
  the tag and the number as printed. \<open>Analyzing\<close> is the placeholder string
  (white circle, "analyzing"), \<open>NoResponse\<close>, \<open>RequestFailed\<close>, \<open>InsufficientData\<close>
  and \<open>AnalysisFailed\<close> are the four failure strings, \<open>NotRecommended\<close> is the
  white-circle "not recommended" string.
\<close>

datatype signal =
    Analyzing | NoResponse | RequestFailed | InsufficientData | AnalysisFailed
  | Long real | Short real | NotRecommended real

section \<open>The batch scheduler of api\_utils.py\<close>

text \<open>
  \<^verbatim>\<open>cache\<close> is a Python dict: keys are unique and keep their insertion order, an
  assignment to an existing key replaces the value in place. That is an association list
  with \<^const>\<open>AList.update\<close>.
\<close>

type_synonym cache = "(symbol \<times> signal) list"

text \<open>\<^verbatim>\<open>cache.setdefault(sym, v)\<close>\<close>

definition setdefault :: "symbol \<Rightarrow> signal \<Rightarrow> cache \<Rightarrow> cache" where
  "setdefault k v c = (case map_of c k of None \<Rightarrow> c @ [(k, v)] | Some _ \<Rightarrow> c)"

text \<open>\<^verbatim>\<open>for sym in SYMBOLS: cache.setdefault(sym, placeholder)\<close>\<close>

definition prefill :: "symbol list \<Rightarrow> cache \<Rightarrow> cache" where
  "prefill SYMBOLS c = fold (\<lambda>sym c. setdefault sym Analyzing c) SYMBOLS c"

text \<open>
  \<^verbatim>\<open>range(start, stop, step)\<close> for a positive step. Python raises ValueError for step 0;
  the caller below writes that branch out. The only call site runs the default
  \<^verbatim>\<open>group_size=30\<close>, so a negative step is left out of the type.
\<close>

function py_range :: "nat \<Rightarrow> nat \<Rightarrow> nat \<Rightarrow> nat list" where
  "py_range i n step = (if step = 0 \<or> n \<le> i then [] else i # py_range (i + step) n step)"
  by pat_completeness auto
termination
  by (relation "measure (\<lambda>(i, n, step). n - i)") auto

declare py_range.simps [simp del]

text \<open>\<^verbatim>\<open>xs[i:j]\<close> for \<open>0 \<le> i \<le> j\<close>: out-of-range bounds are clipped, never an error.\<close>

definition py_slice :: "'a list \<Rightarrow> nat \<Rightarrow> nat \<Rightarrow> 'a list" where
  "py_slice xs i j = take (j - i) (drop i xs)"

text \<open>
  \<^verbatim>\<open>await asyncio.gather(*tasks)\<close>: the results in task order, or the exception of a
  task that raised (then no result of the batch is used).
\<close>

fun gather :: "(py_error + 'a) list \<Rightarrow> py_error + 'a list" where
  "gather [] = Inr []"
| "gather (r # rs) =
     (case r of
        Inl e \<Rightarrow> Inl e
      | Inr v \<Rightarrow> (case gather rs of Inl e \<Rightarrow> Inl e | Inr vs \<Rightarrow> Inr (v # vs)))"

text \<open>
  What the scheduler does to the outside: the cache file is overwritten with the whole
  cache, the socket emits the ordered result list, the task sleeps.
\<close>

datatype event = Persisted cache | Emitted "(symbol \<times> signal) list" | Slept nat

record sched =
  cache :: cache
  events :: "event list"

text \<open>\<^verbatim>\<open>for s, r in results: cache[s] = r\<close>\<close>

definition merge_results :: "(symbol \<times> signal) list \<Rightarrow> cache \<Rightarrow> cache" where
  "merge_results results c = fold (\<lambda>(s, r) c. AList.update s r c) results c"

text \<open>\<^verbatim>\<open>[(s, cache[s]) for s in SYMBOLS]\<close>: \<^verbatim>\<open>cache[s]\<close> raises KeyError on a missing key.\<close>

fun ordered_snapshot :: "cache \<Rightarrow> symbol list \<Rightarrow> py_error + (symbol \<times> signal) list" where
  "ordered_snapshot c [] = Inr []"
| "ordered_snapshot c (s # ss) =
     (case map_of c s of
        None \<Rightarrow> Inl KeyError
      | Some v \<Rightarrow> (case ordered_snapshot c ss of Inl e \<Rightarrow> Inl e | Inr rest \<Rightarrow> Inr ((s, v) # rest)))"

text \<open>
  The body of the \<^verbatim>\<open>for\<close> loop of \<^verbatim>\<open>rotating_analysis\<close> for one batch. \<open>fetch\<close> is
  \<^verbatim>\<open>fetch_kline(session, _)\<close> at the time of this batch.
\<close>

definition run_batch ::
  "(symbol \<Rightarrow> py_error + symbol \<times> signal) \<Rightarrow> symbol list \<Rightarrow> nat \<Rightarrow> symbol list \<Rightarrow> sched
     \<Rightarrow> py_error + sched" where
  "run_batch fetch SYMBOLS interval batch st =
     (case gather (map fetch batch) of
        Inl e \<Rightarrow> Inl e
      | Inr results \<Rightarrow>
          (let c = merge_results results (cache st) in
           case ordered_snapshot c SYMBOLS of
             Inl e \<Rightarrow> Inl e
           | Inr ordered \<Rightarrow>
               Inr \<lparr>cache = c,
                    events = events st @ [Persisted c, Emitted ordered, Slept interval]\<rparr>))"

text \<open>
  \<^verbatim>\<open>for i in range(0, len(SYMBOLS), group_size): batch = SYMBOLS[i:i+group_size]; ...\<close>
  over the indices still to visit. \<open>t\<close> counts the batches since the start: the provider
  may answer differently each time.
\<close>

fun pass_loop ::
  "(nat \<Rightarrow> symbol \<Rightarrow> py_error + symbol \<times> signal) \<Rightarrow> symbol list \<Rightarrow> nat \<Rightarrow> nat \<Rightarrow> nat
     \<Rightarrow> nat list \<Rightarrow> sched \<Rightarrow> py_error + sched" where
  "pass_loop fetch SYMBOLS group_size interval t [] st = Inr st"
| "pass_loop fetch SYMBOLS group_size interval t (i # rest) st =
     (case run_batch (fetch t) SYMBOLS interval (py_slice SYMBOLS i (i + group_size)) st of
        Inl e \<Rightarrow> Inl e
      | Inr st' \<Rightarrow> pass_loop fetch SYMBOLS group_size interval (Suc t) rest st')"

text \<open>One iteration of \<^verbatim>\<open>while True\<close>: a pass over the universe.\<close>

definition analysis_pass ::
  "(nat \<Rightarrow> symbol \<Rightarrow> py_error + symbol \<times> signal) \<Rightarrow> symbol list \<Rightarrow> nat \<Rightarrow> nat \<Rightarrow> nat
     \<Rightarrow> sched \<Rightarrow> py_error + sched" where
  "analysis_pass fetch SYMBOLS group_size interval t st =
     (if group_size = 0 then Inl ValueError
      else pass_loop fetch SYMBOLS group_size interval t
             (py_range 0 (length SYMBOLS) group_size) st)"

text \<open>
  \<^verbatim>\<open>rotating_analysis\<close>: the prefill, then \<^verbatim>\<open>while True\<close>. The loop has no exit, so the
  model runs a given number of passes; an escaping exception ends the task.
\<close>

fun passes ::
  "(nat \<Rightarrow> symbol \<Rightarrow> py_error + symbol \<times> signal) \<Rightarrow> symbol list \<Rightarrow> nat \<Rightarrow> nat \<Rightarrow> nat
     \<Rightarrow> nat \<Rightarrow> sched \<Rightarrow> py_error + sched" where
  "passes fetch SYMBOLS group_size interval t 0 st = Inr st"
| "passes fetch SYMBOLS group_size interval t (Suc n) st =
     (case analysis_pass fetch SYMBOLS group_size interval t st of
        Inl e \<Rightarrow> Inl e
      | Inr st' \<Rightarrow>
          passes fetch SYMBOLS group_size interval
            (t + length (py_range 0 (length SYMBOLS) group_size)) n st')"

definition rotating_analysis ::
  "(nat \<Rightarrow> symbol \<Rightarrow> py_error + symbol \<times> signal) \<Rightarrow> symbol list \<Rightarrow> nat \<Rightarrow> nat \<Rightarrow> nat
     \<Rightarrow> cache \<Rightarrow> py_error + sched" where
  "rotating_analysis fetch SYMBOLS group_size interval n cache0 =
     passes fetch SYMBOLS group_size interval 0 n
       \<lparr>cache = prefill SYMBOLS cache0, events = []\<rparr>"

text \<open>
  The words of the specification, to state the pass against: \<open>ceil_div n b\<close> is
  \<open>\<lceil>n / b\<rceil>\<close> and \<open>batch_at xs B k\<close> is the \<open>k\<close>-th consecutive slice of size \<open>B\<close>.
\<close>

definition ceil_div :: "nat \<Rightarrow> nat \<Rightarrow> nat" where
  "ceil_div n b = (n + b - 1) div b"

definition batch_at :: "'a list \<Rightarrow> nat \<Rightarrow> nat \<Rightarrow> 'a list" where
  "batch_at xs B k = take B (drop (k * B) xs)"

text \<open>A universe of 45 distinct symbols, for the end-to-end scenario.\<close>

definition universe45 :: "symbol list" where
  "universe45 = map (\<lambda>k. ''SYM'' @ [char_of k]) [0 ..< (45::nat)]"

section \<open>The arithmetic of doubles\<close>

text \<open>
  A float of Python and of numpy is an IEEE 754 double: an arithmetic operation returns
  its exact result rounded to the nearest double, a tie going to the even neighbour. The
  functions below that compute with floats take this rounding as a parameter \<open>rd\<close> and
  write out every place where the code rounds; a literal such as \<^verbatim>\<open>0.85\<close> is \<open>rd (85 / 100)\<close>.
  \<open>binary64\<close> is the rounding itself, with the 53 significant bits and the smallest
  exponent of the format (a result beyond the largest double, which overflows to an
  infinity, is left as it is: the scores and indicators stay far from it).
  \<open>round_half_even\<close> rounds to the nearest integer, a tie to the even one.
\<close>

definition round_half_even :: "real \<Rightarrow> int" where
  "round_half_even y =
     (let f = \<lfloor>y\<rfloor>; d = y - of_int f
      in if d < 1 / 2 then f else if d > 1 / 2 then f + 1 else if even f then f else f + 1)"

text \<open>The binary exponent \<open>\<lfloor>log\<^sub>2 a\<rfloor>\<close> of a positive number, from 1 upwards and below 1.\<close>

function expo_ge :: "real \<Rightarrow> int" where
  "expo_ge a = (if 2 \<le> a then expo_ge (a / 2) + 1 else 0)"
  by pat_completeness auto
termination
proof (relation "measure (\<lambda>a. nat \<lceil>a\<rceil>)")
  show "wf (measure (\<lambda>a. nat \<lceil>a\<rceil>))" by simp
next
  fix a :: real assume "2 \<le> a"
  then have "\<lceil>a / 2\<rceil> < \<lceil>a\<rceil>" by linarith
  moreover have "0 < \<lceil>a\<rceil>" using \<open>2 \<le> a\<close> by linarith
  ultimately show "(a / 2, a) \<in> measure (\<lambda>a. nat \<lceil>a\<rceil>)" by simp
qed

function expo_lt :: "real \<Rightarrow> int" where
  "expo_lt a = (if 0 < a \<and> a < 1 then expo_lt (a * 2) - 1 else 0)"
  by pat_completeness auto
termination
proof (relation "measure (\<lambda>a. nat \<lceil>1 / a\<rceil>)")
  show "wf (measure (\<lambda>a. nat \<lceil>1 / a\<rceil>))" by simp
next
  fix a :: real assume a: "0 < a \<and> a < 1"
  then have x: "1 < 1 / a" by simp
  have h: "\<lceil>y / 2\<rceil> < \<lceil>y\<rceil>" if "1 < y" for y :: real
  proof (cases "y \<le> 2")
    case True
    then have "\<lceil>y / 2\<rceil> \<le> 1" by (simp add: ceiling_le_iff)
    moreover have "1 < \<lceil>y\<rceil>" using that by (simp add: less_ceiling_iff)
    ultimately show ?thesis by linarith
  next
    case False
    then show ?thesis by linarith
  qed
  have "1 / (a * 2) = (1 / a) / 2" by simp
  then have "\<lceil>1 / (a * 2)\<rceil> < \<lceil>1 / a\<rceil>" using h [OF x] by simp
  moreover have "0 < \<lceil>1 / a\<rceil>" using x by linarith
  ultimately show "(a * 2, a) \<in> measure (\<lambda>a. nat \<lceil>1 / a\<rceil>)" by simp
qed

declare expo_ge.simps [simp del] expo_lt.simps [simp del]

definition exponent :: "real \<Rightarrow> int" where
  "exponent a = (if 1 \<le> a then expo_ge a else expo_lt a)"

text \<open>
  The distance between the doubles around a positive number \<open>a\<close>, and the rounding: the
  nearest multiple of that distance.
\<close>

definition ulp :: "real \<Rightarrow> real" where
  "ulp a = 2 powi (max (exponent a) (- 1022) - 52)"

definition binary64 :: "real \<Rightarrow> real" where
  "binary64 x =
     (if x = 0 then 0
      else sgn x * (of_int (round_half_even (\<bar>x\<bar> / ulp \<bar>x\<bar>)) * ulp \<bar>x\<bar>))"

text \<open>
  The number printed by the format \<^verbatim>\<open>:.1f\<close>: the decimal with one digit after the point
  that is nearest to the exact value of the double, a tie going to the even digit.
\<close>

definition format1 :: "real \<Rightarrow> real" where
  "format1 x = of_int (round_half_even (x * 10)) / 10"

section \<open>The k-line fetch and the classifier policy (api\_utils.py, web.py)\<close>

text \<open>
  A decoded JSON document, as \<^verbatim>\<open>await resp.json()\<close> returns it: \<^verbatim>\<open>None\<close>, a bool, a number,
  a string, a list or a dict (its items in order, keys unique). Numbers are their exact
  value.
\<close>

datatype json =
    JNull | JBool bool | JNum real | JStr string | JArr "json list"
  | JObj "(string \<times> json) list"

text \<open>
  The outcome of \<^verbatim>\<open>session.get(url, timeout=5)\<close> followed by \<^verbatim>\<open>resp.json()\<close>: an exception
  (connection error, timeout, a body that is not JSON) or the decoded body.
\<close>

datatype http_outcome = Failed py_error | Body json

text \<open>Sequencing of computations that can raise.\<close>

definition bind_err :: "py_error + 'a \<Rightarrow> ('a \<Rightarrow> py_error + 'b) \<Rightarrow> py_error + 'b" where
  "bind_err m f = (case m of Inl e \<Rightarrow> Inl e | Inr v \<Rightarrow> f v)"

text \<open>Python truth value, as \<^verbatim>\<open>if not rows\<close> tests it.\<close>

fun truthy :: "json \<Rightarrow> bool" where
  "truthy JNull = False"
| "truthy (JBool b) = b"
| "truthy (JNum x) = (x \<noteq> 0)"
| "truthy (JStr s) = (s \<noteq> [])"
| "truthy (JArr xs) = (xs \<noteq> [])"
| "truthy (JObj kvs) = (kvs \<noteq> [])"

text \<open>\<^verbatim>\<open>data.get(key, default)\<close>: only a dict has \<^verbatim>\<open>get\<close>.\<close>

fun py_get :: "json \<Rightarrow> string \<Rightarrow> json \<Rightarrow> py_error + json" where
  "py_get (JObj kvs) key dflt = Inr (case map_of kvs key of None \<Rightarrow> dflt | Some v \<Rightarrow> v)"
| "py_get _ key dflt = Inl AttributeError"

text \<open>
  \<^verbatim>\<open>key in data\<close> for a string key: key membership for a dict, element membership for a
  list, substring for a string, TypeError otherwise.
\<close>

fun py_contains :: "json \<Rightarrow> string \<Rightarrow> py_error + bool" where
  "py_contains (JObj kvs) key = Inr (map_of kvs key \<noteq> None)"
| "py_contains (JArr xs) key = Inr (JStr key \<in> set xs)"
| "py_contains (JStr s) key =
     Inr (list_ex (\<lambda>i. take (length key) (drop i s) = key) [0 ..< Suc (length s)])"
| "py_contains _ key = Inl TypeError"

text \<open>\<^verbatim>\<open>data[key]\<close> for a string key.\<close>

fun py_getitem :: "json \<Rightarrow> string \<Rightarrow> py_error + json" where
  "py_getitem (JObj kvs) key = (case map_of kvs key of None \<Rightarrow> Inl KeyError | Some v \<Rightarrow> Inr v)"
| "py_getitem _ key = Inl TypeError"

text \<open>\<^verbatim>\<open>for k in rows\<close>: the elements of a list, the keys of a dict, the characters of a string.\<close>

fun py_iter :: "json \<Rightarrow> py_error + json list" where
  "py_iter (JArr xs) = Inr xs"
| "py_iter (JObj kvs) = Inr (map (\<lambda>kv. JStr (fst kv)) kvs)"
| "py_iter (JStr s) = Inr (map (\<lambda>c. JStr [c]) s)"
| "py_iter _ = Inl TypeError"

text \<open>\<^verbatim>\<open>k[i]\<close> for an index \<open>i \<ge> 0\<close>.\<close>

fun py_index :: "json \<Rightarrow> nat \<Rightarrow> py_error + json" where
  "py_index (JArr xs) i = (if i < length xs then Inr (xs ! i) else Inl IndexError)"
| "py_index (JStr s) i = (if i < length s then Inr (JStr [s ! i]) else Inl IndexError)"
| "py_index (JObj kvs) i = Inl KeyError"
| "py_index _ i = Inl TypeError"

text \<open>
  The builtins \<^verbatim>\<open>int\<close> and \<^verbatim>\<open>float\<close>. How Python reads a string as a number is not part
  of the repository: the two readers are parameters (\<open>None\<close>: ValueError). A number of
  the payload is a double already or an integer; \<^verbatim>\<open>float\<close> raises OverflowError for an
  integer that would round beyond the largest double. The record also carries the
  rounding of the float arithmetic, for the score.
\<close>

record readers =
  str_int :: "string \<Rightarrow> int option"
  str_float :: "string \<Rightarrow> real option"
  rounding :: "real \<Rightarrow> real"

fun py_int :: "readers \<Rightarrow> json \<Rightarrow> py_error + int" where
  "py_int P (JNum x) = Inr (if 0 \<le> x then \<lfloor>x\<rfloor> else \<lceil>x\<rceil>)"
| "py_int P (JBool b) = Inr (if b then 1 else 0)"
| "py_int P (JStr s) = (case str_int P s of None \<Rightarrow> Inl ValueError | Some i \<Rightarrow> Inr i)"
| "py_int P _ = Inl TypeError"

fun py_float :: "readers \<Rightarrow> json \<Rightarrow> py_error + real" where
  "py_float P (JNum x) = (if \<bar>x\<bar> < 2 ^ 1024 - 2 ^ 970 then Inr x else Inl OverflowError)"
| "py_float P (JBool b) = Inr (if b then 1 else 0)"
| "py_float P (JStr s) = (case str_float P s of None \<Rightarrow> Inl ValueError | Some x \<Rightarrow> Inr x)"
| "py_float P _ = Inl TypeError"

text \<open>One row of the data frame; the keys of the dict built per row.\<close>

record bar =
  timestamp :: int
  open_px :: real
  high :: real
  low :: real
  close_px :: real
  volume :: real

text \<open>
  The dict display of the comprehension, evaluated left to right:
  \<^verbatim>\<open>int(k[0])//1000, float(k[1]), ..., float(k[5])\<close>; the first exception ends it.
\<close>

definition decode_row :: "readers \<Rightarrow> json \<Rightarrow> py_error + bar" where
  "decode_row P k =
     bind_err (bind_err (py_index k 0) (py_int P)) (\<lambda>t.
     bind_err (bind_err (py_index k 1) (py_float P)) (\<lambda>opn.
     bind_err (bind_err (py_index k 2) (py_float P)) (\<lambda>h.
     bind_err (bind_err (py_index k 3) (py_float P)) (\<lambda>l.
     bind_err (bind_err (py_index k 4) (py_float P)) (\<lambda>c.
     bind_err (bind_err (py_index k 5) (py_float P)) (\<lambda>v.
       Inr \<lparr>timestamp = t div 1000, open_px = opn, high = h, low = l,
            close_px = c, volume = v\<rparr>))))))"

fun decode_rows :: "readers \<Rightarrow> json list \<Rightarrow> py_error + bar list" where
  "decode_rows P [] = Inr []"
| "decode_rows P (k # ks) =
     bind_err (decode_row P k) (\<lambda>b. bind_err (decode_rows P ks) (\<lambda>bs. Inr (b # bs)))"

text \<open>
  The \<^verbatim>\<open>try\<close> block of \<^verbatim>\<open>fetch_kline\<close> in api\_utils.py: \<open>Inl\<close> an exception raised in
  it, \<open>Inr None\<close> the early return of the no-response tag, \<open>Inr (Some df)\<close> the data frame.
\<close>

definition try_frame :: "readers \<Rightarrow> http_outcome \<Rightarrow> py_error + bar list option" where
  "try_frame P resp =
     (case resp of
        Failed e \<Rightarrow> Inl e
      | Body data \<Rightarrow>
          bind_err (py_get data ''data'' (JArr [])) (\<lambda>rows.
            if \<not> truthy rows then Inr None
            else bind_err (py_iter rows) (\<lambda>ks.
                 bind_err (decode_rows P ks) (\<lambda>df. Inr (Some df)))))"

text \<open>The same block in web.py: the guard is \<^verbatim>\<open>'data' not in data\<close>, then \<^verbatim>\<open>data['data']\<close>.\<close>

definition try_frame_web :: "readers \<Rightarrow> http_outcome \<Rightarrow> py_error + bar list option" where
  "try_frame_web P resp =
     (case resp of
        Failed e \<Rightarrow> Inl e
      | Body data \<Rightarrow>
          bind_err (py_contains data ''data'') (\<lambda>present.
            if \<not> present then Inr None
            else bind_err (py_getitem data ''data'') (\<lambda>rows.
                 bind_err (py_iter rows) (\<lambda>ks.
                 bind_err (decode_rows P ks) (\<lambda>df. Inr (Some df))))))"

text \<open>
  Contract metadata, an item of the contract-detail response. A field is \<open>None\<close> when the
  key is absent; a present field has the type the provider documents (strings, numbers).
\<close>

record risk_tier =
  mmr :: "real option"
  imr :: "real option"

record contract =
  symbol :: "string option"
  quoteCoin :: "string option"
  riskLimitCustom :: "risk_tier list option"
  maintenanceMarginRate :: "real option"
  initialMarginRate :: "real option"

type_synonym detail_map = "(string \<times> contract) list"

text \<open>\<^verbatim>\<open>d.get(key, 0)\<close> on a numeric field.\<close>

definition get0 :: "real option \<Rightarrow> real" where
  "get0 v = (case v of None \<Rightarrow> 0 | Some x \<Rightarrow> x)"

text \<open>
  Lines 120--127 of api\_utils.py: \<^verbatim>\<open>detail_map.get(symbol, {})\<close>, then the rates of
  \<^verbatim>\<open>riskLimitCustom[0]\<close> when the list is there and not empty, else the contract's own.
\<close>

definition margin_rates :: "detail_map \<Rightarrow> string \<Rightarrow> real \<times> real" where
  "margin_rates dm s =
     (case map_of dm s of
        None \<Rightarrow> (0, 0)
      | Some detail \<Rightarrow>
          (case riskLimitCustom detail of
             Some (tier # _) \<Rightarrow> (get0 (mmr tier), get0 (imr tier))
           | _ \<Rightarrow> (get0 (maintenanceMarginRate detail), get0 (initialMarginRate detail))))"

text \<open>
  The three-way threshold on a score, lines 132--137 (web.py: 103--108): the score is
  compared with the doubles \<^verbatim>\<open>0.85\<close> and \<^verbatim>\<open>0.15\<close>, and the percentage, a product or a
  difference and a product of doubles, is printed by \<^verbatim>\<open>:.1f\<close>.
\<close>

definition threshold_signal :: "(real \<Rightarrow> real) \<Rightarrow> real \<Rightarrow> signal" where
  "threshold_signal rd a =
     (if a > rd (85 / 100) then Long (format1 (rd (a * 100)))
      else if a < rd (15 / 100) then Short (format1 (rd (rd (1 - a) * 100)))
      else NotRecommended (format1 (rd (a * 100))))"

text \<open>Lines 129--130: the sum of the rates, its complement and the product, each rounded.\<close>

definition risk_signal :: "(real \<Rightarrow> real) \<Rightarrow> detail_map \<Rightarrow> string \<Rightarrow> real \<Rightarrow> signal" where
  "risk_signal rd dm s prob =
     (let (m, i) = margin_rates dm s;
          total_risk = rd (m + i);
          adjusted = rd (prob * rd (1 - total_risk))
      in threshold_signal rd adjusted)"

text \<open>
  \<^verbatim>\<open>fetch_kline\<close> of api\_utils.py. \<open>fit_predict\<close> is lines 104--117: the indicator columns
  of the \<^verbatim>\<open>ta\<close> library, the logistic regression fitted on the frame and its probability
  for the last row; it returns the probability or raises. Nothing catches what it
  raises.
\<close>

definition fetch_kline ::
  "readers \<Rightarrow> detail_map \<Rightarrow> (bar list \<Rightarrow> py_error + real) \<Rightarrow> http_outcome \<Rightarrow> string
     \<Rightarrow> py_error + string \<times> signal" where
  "fetch_kline P dm fit_predict resp s =
     (case try_frame P resp of
        Inl e \<Rightarrow> Inr (s, RequestFailed)
      | Inr None \<Rightarrow> Inr (s, NoResponse)
      | Inr (Some df) \<Rightarrow>
          if length df < 25 then Inr (s, InsufficientData)
          else (case fit_predict df of
                  Inl e \<Rightarrow> Inl e
                | Inr prob \<Rightarrow> Inr (s, risk_signal (rounding P) dm s prob)))"

text \<open>\<^verbatim>\<open>fetch_kline\<close> of web.py: the second \<^verbatim>\<open>try\<close> turns an exception into the analysis-failed tag.\<close>

definition fetch_kline_web ::
  "readers \<Rightarrow> (bar list \<Rightarrow> py_error + real) \<Rightarrow> http_outcome \<Rightarrow> string
     \<Rightarrow> py_error + string \<times> signal" where
  "fetch_kline_web P fit_predict resp s =
     (case try_frame_web P resp of
        Inl e \<Rightarrow> Inr (s, RequestFailed)
      | Inr None \<Rightarrow> Inr (s, NoResponse)
      | Inr (Some df) \<Rightarrow>
          if length df < 25 then Inr (s, InsufficientData)
          else (case fit_predict df of
                  Inl e \<Rightarrow> Inr (s, AnalysisFailed)
                | Inr prob \<Rightarrow> Inr (s, threshold_signal (rounding P) prob)))"

section \<open>The universe loaders\<close>

text \<open>
  The provider's answer to one \<^verbatim>\<open>GET /contract/detail\<close>, as the loader sees it: an
  exception (no connection, timeout, an error status under \<^verbatim>\<open>raise_for_status\<close>, a body
  that is not JSON) or the decoded body with its \<^verbatim>\<open>data\<close> list (\<open>None\<close>: no such key).
  \<open>provider n\<close> is the answer to the \<open>n\<close>-th call; a call advances the counter.
\<close>

datatype detail_outcome = DetailFailed py_error | DetailBody "contract list option"

definition detail_get :: "(nat \<Rightarrow> detail_outcome) \<Rightarrow> nat \<Rightarrow> detail_outcome \<times> nat" where
  "detail_get provider calls = (provider calls, Suc calls)"

text \<open>
  api\_utils.py, lines 71--74: the loop that fills \<^verbatim>\<open>detail_map\<close>. \<^verbatim>\<open>item['symbol']\<close> raises
  KeyError on an item without that key; the entries stored before stay in the dict.
\<close>

fun load_items :: "contract list \<Rightarrow> detail_map \<Rightarrow> detail_map \<times> py_error option" where
  "load_items [] dm = (dm, None)"
| "load_items (item # items) dm =
     (if quoteCoin item = Some ''USDT'' then
        (case symbol item of
           None \<Rightarrow> (dm, Some KeyError)
         | Some s \<Rightarrow> load_items items (AList.update s item dm))
      else load_items items dm)"

text \<open>
  What the module-level bootstrap of api\_utils.py leaves behind: the two globals, the
  error it printed (if any) and the number of calls to the provider.
\<close>

record universe =
  details :: detail_map
  SYMBOLS :: "symbol list"
  printed :: "py_error option"
  detail_calls :: nat

definition bootstrap :: "(nat \<Rightarrow> detail_outcome) \<Rightarrow> universe" where
  "bootstrap provider =
     (let (resp, calls) = detail_get provider 0 in
      case resp of
        DetailFailed e \<Rightarrow>
          \<lparr>details = [], SYMBOLS = [], printed = Some e, detail_calls = calls\<rparr>
      | DetailBody body \<Rightarrow>
          (let items = (case body of None \<Rightarrow> [] | Some xs \<Rightarrow> xs);
               (dm, err) = load_items items []
           in case err of
                Some e \<Rightarrow> \<lparr>details = dm, SYMBOLS = [], printed = Some e, detail_calls = calls\<rparr>
              | None \<Rightarrow>
                  \<lparr>details = dm, SYMBOLS = map fst dm, printed = None, detail_calls = calls\<rparr>))"

text \<open>
  web.py, lines 154--155: \<^verbatim>\<open>[item['symbol'] for item in resp['data'] if
  item.get('quoteCoin') == 'USDT']\<close>, with no handler around it.
\<close>

fun usdt_symbols :: "contract list \<Rightarrow> py_error + symbol list" where
  "usdt_symbols [] = Inr []"
| "usdt_symbols (item # items) =
     (if quoteCoin item = Some ''USDT'' then
        (case symbol item of
           None \<Rightarrow> Inl KeyError
         | Some s \<Rightarrow> bind_err (usdt_symbols items) (\<lambda>rest. Inr (s # rest)))
      else usdt_symbols items)"

definition load_symbols_web :: "(nat \<Rightarrow> detail_outcome) \<Rightarrow> (py_error + symbol list) \<times> nat" where
  "load_symbols_web provider =
     (let (resp, calls) = detail_get provider 0 in
      (case resp of
         DetailFailed e \<Rightarrow> Inl e
       | DetailBody None \<Rightarrow> Inl KeyError
       | DetailBody (Some items) \<Rightarrow> usdt_symbols items,
       calls))"

text \<open>\<^verbatim>\<open>s.endswith(suffix)\<close>\<close>

definition endswith :: "string \<Rightarrow> string \<Rightarrow> bool" where
  "endswith s suffix =
     (length suffix \<le> length s \<and> drop (length s - length suffix) s = suffix)"

text \<open>
  test.py, \<^verbatim>\<open>fetch_symbols\<close>: \<^verbatim>\<open>[item['symbol'] for item in data if
  item['symbol'].endswith('_USDT')]\<close>, with no handler around it.
\<close>

fun suffix_symbols :: "contract list \<Rightarrow> py_error + symbol list" where
  "suffix_symbols [] = Inr []"
| "suffix_symbols (item # items) =
     (case symbol item of
        None \<Rightarrow> Inl KeyError
      | Some s \<Rightarrow>
          if endswith s ''_USDT'' then bind_err (suffix_symbols items) (\<lambda>rest. Inr (s # rest))
          else suffix_symbols items)"

definition fetch_symbols :: "(nat \<Rightarrow> detail_outcome) \<Rightarrow> (py_error + symbol list) \<times> nat" where
  "fetch_symbols provider =
     (let (resp, calls) = detail_get provider 0 in
      (case resp of
         DetailFailed e \<Rightarrow> Inl e
       | DetailBody body \<Rightarrow> suffix_symbols (case body of None \<Rightarrow> [] | Some xs \<Rightarrow> xs),
       calls))"

section \<open>The service of api\_utils.py\<close>

text \<open>
  The bootstrap, then the background task on the loaded universe. \<open>net t s\<close> is the
  provider's answer to the k-line request for \<open>s\<close> in the batch with number \<open>t\<close>;
  \<open>cache0\<close> is what \<^verbatim>\<open>__main__\<close> loaded from the cache file (empty without a file). The
  task is stopped after \<open>n\<close> passes and \<open>k\<close> further batches.
\<close>

definition state_after ::
  "(nat \<Rightarrow> symbol \<Rightarrow> py_error + symbol \<times> signal) \<Rightarrow> symbol list \<Rightarrow> nat \<Rightarrow> nat \<Rightarrow> cache
     \<Rightarrow> nat \<Rightarrow> nat \<Rightarrow> py_error + sched" where
  "state_after fetch U group_size interval cache0 n k =
     bind_err (rotating_analysis fetch U group_size interval n cache0) (\<lambda>st.
       pass_loop fetch U group_size interval
         (n * length (py_range 0 (length U) group_size))
         (take k (py_range 0 (length U) group_size)) st)"

definition service ::
  "readers \<Rightarrow> (nat \<Rightarrow> detail_outcome) \<Rightarrow> (bar list \<Rightarrow> py_error + real)
     \<Rightarrow> (nat \<Rightarrow> symbol \<Rightarrow> http_outcome) \<Rightarrow> cache \<Rightarrow> nat \<Rightarrow> nat \<Rightarrow> py_error + sched" where
  "service P provider fit_predict net cache0 n k =
     (let u = bootstrap provider in
      state_after (\<lambda>t s. fetch_kline P (details u) fit_predict (net t s) s)
        (SYMBOLS u) 30 60 cache0 n k)"

text \<open>
  To say which signal an entry holds: \<open>schedule U B n k\<close> lists the batches run up to
  the stopping point (\<open>n\<close> passes, then \<open>k\<close> batches), \<open>latest_from t bs s\<close> is the number
  of the last batch among \<open>bs\<close> (numbered from \<open>t\<close>) that holds \<open>s\<close>, and \<open>returned r\<close> is
  the signal of a fetch that returned. \<open>keys_inv\<close> is the invariant of the cache's keys.
\<close>

definition schedule :: "symbol list \<Rightarrow> nat \<Rightarrow> nat \<Rightarrow> nat \<Rightarrow> symbol list list" where
  "schedule U B n k =
     concat (replicate n (map (batch_at U B) [0 ..< ceil_div (length U) B]))
       @ take k (map (batch_at U B) [0 ..< ceil_div (length U) B])"

fun latest_from :: "nat \<Rightarrow> symbol list list \<Rightarrow> symbol \<Rightarrow> nat option" where
  "latest_from t [] s = None"
| "latest_from t (b # bs) s =
     (case latest_from (Suc t) bs s of
        Some u \<Rightarrow> Some u
      | None \<Rightarrow> if s \<in> set b then Some t else None)"

definition returned :: "py_error + symbol \<times> signal \<Rightarrow> signal option" where
  "returned r = (case r of Inl e \<Rightarrow> None | Inr (s, v) \<Rightarrow> Some v)"

text \<open>
  The cache that the specification expects after the first \<open>k\<close> batches of a pass that
  starts at batch number \<open>t\<close> from the cache \<open>c\<close>, where \<open>r u s\<close> is the signal that the
  fetch of \<open>s\<close> returns in the batch with number \<open>u\<close>: the keys of \<open>c\<close> in their order, the
  entry of a symbol of one of these batches holding the signal of the last of them, every
  other entry as it was. It is written without the merge of the code.
\<close>

definition cache_after ::
  "(nat \<Rightarrow> symbol \<Rightarrow> signal) \<Rightarrow> symbol list \<Rightarrow> nat \<Rightarrow> nat \<Rightarrow> nat \<Rightarrow> cache \<Rightarrow> cache" where
  "cache_after r U B t k c =
     map (\<lambda>(key, v).
            (key, case latest_from t (take k (map (batch_at U B) [0 ..< ceil_div (length U) B])) key of
                    Some u \<Rightarrow> r u key
                  | None \<Rightarrow> v)) c"

definition keys_inv :: "cache \<Rightarrow> symbol list \<Rightarrow> cache \<Rightarrow> bool" where
  "keys_inv c0 U c \<longleftrightarrow> fst ` set c = fst ` set c0 \<union> set U \<and> distinct (map fst c)"

text \<open>
  For the loaders: the contracts of a response that are quoted in USDT, and a list with
  each element kept at its first occurrence only.
\<close>

definition usdt_quoted :: "contract list \<Rightarrow> contract list" where
  "usdt_quoted items = filter (\<lambda>item. quoteCoin item = Some ''USDT'') items"

definition first_occurrences :: "'a list \<Rightarrow> 'a list" where
  "first_occurrences xs = rev (remdups (rev xs))"

text \<open>
  Sample data for the scenarios: readers that accept no string, with the arithmetic of
  doubles, and three contracts.
\<close>

definition no_readers :: readers where
  "no_readers = \<lparr>str_int = (\<lambda>_. None), str_float = (\<lambda>_. None), rounding = binary64\<rparr>"

definition btc_contract :: contract where
  "btc_contract = \<lparr>symbol = Some ''BTC_USDT'', quoteCoin = Some ''USDT'',
     riskLimitCustom = Some [\<lparr>mmr = Some (4 / 1000), imr = Some (1 / 100)\<rparr>],
     maintenanceMarginRate = Some (5 / 1000), initialMarginRate = Some (2 / 100)\<rparr>"

definition eth_contract :: contract where
  "eth_contract = \<lparr>symbol = Some ''ETH_USDC'', quoteCoin = Some ''USDC'',
     riskLimitCustom = None, maintenanceMarginRate = None, initialMarginRate = None\<rparr>"

definition sol_contract :: contract where
  "sol_contract = \<lparr>symbol = Some ''SOLUSDT'', quoteCoin = Some ''USDT'',
     riskLimitCustom = Some [], maintenanceMarginRate = Some (5 / 1000),
     initialMarginRate = Some (2 / 100)\<rparr>"

text \<open>Two contracts whose rates are doubles: one with a tier list, one with an empty list.\<close>

definition tier_contract :: contract where
  "tier_contract = \<lparr>symbol = Some ''BTC_USDT'', quoteCoin = Some ''USDT'',
     riskLimitCustom = Some [\<lparr>mmr = Some (binary64 (4 / 1000)), imr = Some (binary64 (1 / 100))\<rparr>],
     maintenanceMarginRate = Some (binary64 (5 / 1000)), initialMarginRate = Some (binary64 (2 / 100))\<rparr>"

definition plain_contract :: contract where
  "plain_contract = \<lparr>symbol = Some ''SOLUSDT'', quoteCoin = Some ''USDT'',
     riskLimitCustom = Some [],
     maintenanceMarginRate = Some (binary64 (5 / 1000)), initialMarginRate = Some (binary64 (2 / 100))\<rparr>"

text \<open>
  A malformed row, in the words of claim C10: a list shorter than 6 elements, or one whose
  timestamp does not convert with \<^verbatim>\<open>int\<close> or whose price or volume field does not
  convert with \<^verbatim>\<open>float\<close>.
\<close>

definition malformed :: "readers \<Rightarrow> json \<Rightarrow> bool" where
  "malformed P k =
     (case k of
        JArr xs \<Rightarrow> length xs < 6 \<or> isl (py_int P (xs ! 0))
                  \<or> (\<exists>i \<in> {1, 2, 3, 4, 5}. isl (py_float P (xs ! i)))
      | _ \<Rightarrow> False)"

text \<open>A well-formed row with every price equal, and the bar it decodes to.\<close>

definition flat_row :: json where
  "flat_row = JArr [JNum 1700000000000, JNum 1, JNum 1, JNum 1, JNum 1, JNum 1]"

definition flat_bar :: bar where
  "flat_bar = \<lparr>timestamp = 1700000000, open_px = 1, high = 1, low = 1, close_px = 1, volume = 1\<rparr>"

section \<open>Floating-point values and the indicators of test.py\<close>

text \<open>
  A float of pandas and numpy is a number, an infinity, the negative zero or NaN
  (\<open>Fin 0\<close> is the positive zero): division by zero and NaN behave as in IEEE 754. The
  operations \<open>fadd\<close>, \<open>fsub\<close>, \<open>fmul\<close>, \<open>fdiv\<close> give the exact result; \<open>radd\<close>, \<open>rsub\<close>,
  \<open>rmul\<close>, \<open>rdiv\<close> further down round it as the machine does. The indicators are given
  twice: in exact arithmetic, to compare \<^verbatim>\<open>compute_rsi\<close> with the formula of the
  specification, and with every rounding written out, as \<^verbatim>\<open>analyze_symbol\<close> runs them.
\<close>

datatype pyfloat = NaN | PInf | NInf | NZero | Fin real

fun is_inf :: "pyfloat \<Rightarrow> bool" where
  "is_inf PInf = True"
| "is_inf NInf = True"
| "is_inf _ = False"

text \<open>The real value of a finite float (0 for the others).\<close>

fun fval :: "pyfloat \<Rightarrow> real" where
  "fval (Fin x) = x"
| "fval _ = 0"

fun is_zero :: "pyfloat \<Rightarrow> bool" where
  "is_zero NZero = True"
| "is_zero (Fin x) = (x = 0)"
| "is_zero _ = False"

text \<open>The sign bit.\<close>

fun is_neg :: "pyfloat \<Rightarrow> bool" where
  "is_neg NInf = True"
| "is_neg NZero = True"
| "is_neg (Fin x) = (x < 0)"
| "is_neg _ = False"

fun fneg :: "pyfloat \<Rightarrow> pyfloat" where
  "fneg NaN = NaN"
| "fneg PInf = NInf"
| "fneg NInf = PInf"
| "fneg NZero = Fin 0"
| "fneg (Fin x) = (if x = 0 then NZero else Fin (- x))"

fun fadd :: "pyfloat \<Rightarrow> pyfloat \<Rightarrow> pyfloat" where
  "fadd NaN _ = NaN"
| "fadd _ NaN = NaN"
| "fadd PInf NInf = NaN"
| "fadd NInf PInf = NaN"
| "fadd PInf _ = PInf"
| "fadd _ PInf = PInf"
| "fadd NInf _ = NInf"
| "fadd _ NInf = NInf"
| "fadd NZero NZero = NZero"
| "fadd NZero (Fin y) = Fin y"
| "fadd (Fin x) NZero = Fin x"
| "fadd (Fin x) (Fin y) = Fin (x + y)"

definition fsub :: "pyfloat \<Rightarrow> pyfloat \<Rightarrow> pyfloat" where
  "fsub a b = fadd a (fneg b)"

text \<open>A signed zero and a signed infinity.\<close>

definition zero_of :: "bool \<Rightarrow> pyfloat" where
  "zero_of neg = (if neg then NZero else Fin 0)"

definition inf_of :: "bool \<Rightarrow> pyfloat" where
  "inf_of neg = (if neg then NInf else PInf)"

definition fmul :: "pyfloat \<Rightarrow> pyfloat \<Rightarrow> pyfloat" where
  "fmul a b =
     (if a = NaN \<or> b = NaN then NaN
      else if is_inf a \<or> is_inf b then
        (if is_zero a \<or> is_zero b then NaN else inf_of (is_neg a \<noteq> is_neg b))
      else if fval a * fval b = 0 then zero_of (is_neg a \<noteq> is_neg b)
      else Fin (fval a * fval b))"

definition fdiv :: "pyfloat \<Rightarrow> pyfloat \<Rightarrow> pyfloat" where
  "fdiv a b =
     (if a = NaN \<or> b = NaN then NaN
      else if is_inf a then (if is_inf b then NaN else inf_of (is_neg a \<noteq> is_neg b))
      else if is_inf b then zero_of (is_neg a \<noteq> is_neg b)
      else if is_zero b then (if is_zero a then NaN else inf_of (is_neg a \<noteq> is_neg b))
      else if is_zero a then zero_of (is_neg a \<noteq> is_neg b)
      else Fin (fval a / fval b))"

fun fabs :: "pyfloat \<Rightarrow> pyfloat" where
  "fabs NaN = NaN"
| "fabs PInf = PInf"
| "fabs NInf = PInf"
| "fabs NZero = Fin 0"
| "fabs (Fin x) = Fin \<bar>x\<bar>"

text \<open>\<^verbatim>\<open>a < b\<close> and \<^verbatim>\<open>a == b\<close>: false when either is NaN; the two zeros are equal.\<close>

fun fless :: "pyfloat \<Rightarrow> pyfloat \<Rightarrow> bool" where
  "fless NaN _ = False"
| "fless _ NaN = False"
| "fless PInf _ = False"
| "fless _ PInf = True"
| "fless _ NInf = False"
| "fless NInf _ = True"
| "fless a b = (fval a < fval b)"

definition feq :: "pyfloat \<Rightarrow> pyfloat \<Rightarrow> bool" where
  "feq a b = (a \<noteq> NaN \<and> b \<noteq> NaN \<and> \<not> fless a b \<and> \<not> fless b a)"

text \<open>
  \<^verbatim>\<open>Series.diff()\<close>: NaN first, then each value minus the one before. \<open>prev\<close> is the
  value before the list.
\<close>

fun diff_from :: "pyfloat \<Rightarrow> pyfloat list \<Rightarrow> pyfloat list" where
  "diff_from prev [] = []"
| "diff_from prev (x # xs) = fsub x prev # diff_from x xs"

definition diff :: "pyfloat list \<Rightarrow> pyfloat list" where
  "diff xs = (case xs of [] \<Rightarrow> [] | x # rest \<Rightarrow> NaN # diff_from x rest)"

text \<open>
  \<^verbatim>\<open>clip(lower=0)\<close> and \<^verbatim>\<open>clip(upper=0)\<close>: a value that is not NaN and fails
  \<^verbatim>\<open>x >= 0\<close> (\<^verbatim>\<open>x <= 0\<close>) is replaced by the bound, the positive zero.
\<close>

definition clip_lower0 :: "pyfloat \<Rightarrow> pyfloat" where
  "clip_lower0 x = (if x = NaN then NaN else if fless x (Fin 0) then Fin 0 else x)"

definition clip_upper0 :: "pyfloat \<Rightarrow> pyfloat" where
  "clip_upper0 x = (if x = NaN then NaN else if fless (Fin 0) x then Fin 0 else x)"

text \<open>
  \<^verbatim>\<open>ewm(alpha=a, adjust=False).mean()\<close>, the loop of pandas (\<^verbatim>\<open>ignore_na=False\<close>, no
  minimum number of periods): \<open>weighted\<close> is the running mean and \<open>old_wt\<close> the weight it
  carries; a value equal to the mean leaves it unchanged; a NaN value keeps the mean and
  ages its weight; a NaN mean is replaced by the first value that is not NaN.
\<close>

fun ewm_loop :: "real \<Rightarrow> pyfloat \<Rightarrow> real \<Rightarrow> pyfloat list \<Rightarrow> pyfloat list" where
  "ewm_loop a weighted old_wt [] = []"
| "ewm_loop a weighted old_wt (cur # rest) =
     (if weighted \<noteq> NaN then
        (let old_wt1 = old_wt * (1 - a) in
         if cur \<noteq> NaN then
           (let w = (if \<not> feq weighted cur
                     then fdiv (fadd (fmul (Fin old_wt1) weighted) (fmul (Fin a) cur))
                            (Fin (old_wt1 + a))
                     else weighted)
            in w # ewm_loop a w 1 rest)
         else weighted # ewm_loop a weighted old_wt1 rest)
      else if cur \<noteq> NaN then cur # ewm_loop a cur old_wt rest
      else weighted # ewm_loop a weighted old_wt rest)"

text \<open>pandas replaces an infinite value of the series by NaN before the loop.\<close>

definition ewm_mean :: "real \<Rightarrow> pyfloat list \<Rightarrow> pyfloat list" where
  "ewm_mean a xs =
     (case map (\<lambda>x. if is_inf x then NaN else x) xs of
        [] \<Rightarrow> []
      | x # rest \<Rightarrow> x # ewm_loop a x 1 rest)"

text \<open>
  \<^verbatim>\<open>compute_rsi(series, period)\<close> of test.py. \<^verbatim>\<open>1/period\<close> raises for period 0; a period
  of at least 1 gives a smoothing factor in \<open>(0, 1]\<close>, which pandas accepts.
\<close>

definition compute_rsi :: "pyfloat list \<Rightarrow> nat \<Rightarrow> py_error + pyfloat list" where
  "compute_rsi series period =
     (if period = 0 then Inl ZeroDivisionError
      else
        (let delta = diff series;
             gain = map clip_lower0 delta;
             loss = map (\<lambda>d. fneg (clip_upper0 d)) delta;
             avg_gain = ewm_mean (1 / real period) gain;
             avg_loss = ewm_mean (1 / real period) loss;
             rs = map2 fdiv avg_gain avg_loss
         in Inr (map (\<lambda>r. fsub (Fin 100) (fdiv (Fin 100) (fadd (Fin 1) r))) rs)))"

text \<open>\<^verbatim>\<open>compute_macd_diff(series)\<close>: \<^verbatim>\<open>span=n\<close> is the smoothing factor \<open>2 / (n + 1)\<close>.\<close>

definition compute_macd_diff :: "pyfloat list \<Rightarrow> pyfloat list" where
  "compute_macd_diff series =
     (let fast = ewm_mean (2 / 13) series;
          slow = ewm_mean (2 / 27) series;
          macd = map2 fsub fast slow;
          sig = ewm_mean (2 / 10) macd
      in map2 fsub macd sig)"

text \<open>
  The same in doubles. \<open>fround rd x\<close> is the float that an operation with the exact
  result \<open>x\<close> returns: \<open>x\<close> rounded by \<open>rd\<close>, a result that rounds to zero keeping its sign.
\<close>

definition fround :: "(real \<Rightarrow> real) \<Rightarrow> pyfloat \<Rightarrow> pyfloat" where
  "fround rd x = (case x of Fin r \<Rightarrow> (if rd r = 0 then zero_of (r < 0) else Fin (rd r)) | _ \<Rightarrow> x)"

definition radd :: "(real \<Rightarrow> real) \<Rightarrow> pyfloat \<Rightarrow> pyfloat \<Rightarrow> pyfloat" where
  "radd rd a b = fround rd (fadd a b)"

definition rsub :: "(real \<Rightarrow> real) \<Rightarrow> pyfloat \<Rightarrow> pyfloat \<Rightarrow> pyfloat" where
  "rsub rd a b = fround rd (fsub a b)"

definition rmul :: "(real \<Rightarrow> real) \<Rightarrow> pyfloat \<Rightarrow> pyfloat \<Rightarrow> pyfloat" where
  "rmul rd a b = fround rd (fmul a b)"

definition rdiv :: "(real \<Rightarrow> real) \<Rightarrow> pyfloat \<Rightarrow> pyfloat \<Rightarrow> pyfloat" where
  "rdiv rd a b = fround rd (fdiv a b)"

fun diff_from_r :: "(real \<Rightarrow> real) \<Rightarrow> pyfloat \<Rightarrow> pyfloat list \<Rightarrow> pyfloat list" where
  "diff_from_r rd prev [] = []"
| "diff_from_r rd prev (x # xs) = rsub rd x prev # diff_from_r rd x xs"

definition diff_r :: "(real \<Rightarrow> real) \<Rightarrow> pyfloat list \<Rightarrow> pyfloat list" where
  "diff_r rd xs = (case xs of [] \<Rightarrow> [] | x # rest \<Rightarrow> NaN # diff_from_r rd x rest)"

text \<open>
  The loop of pandas for \<^verbatim>\<open>ewm(..., adjust=False).mean()\<close> as it computes: the weight
  \<open>old_wt\<close> is multiplied by \<open>old_wt_factor\<close>, the mean becomes
  \<^verbatim>\<open>(old_wt * weighted + new_wt * cur) / (old_wt + new_wt)\<close> and the weight is set back to 1.
\<close>

fun ewm_loop_r ::
  "(real \<Rightarrow> real) \<Rightarrow> real \<Rightarrow> real \<Rightarrow> pyfloat \<Rightarrow> real \<Rightarrow> pyfloat list \<Rightarrow> pyfloat list" where
  "ewm_loop_r rd new_wt old_wt_factor weighted old_wt [] = []"
| "ewm_loop_r rd new_wt old_wt_factor weighted old_wt (cur # rest) =
     (if weighted \<noteq> NaN then
        (let old_wt1 = rd (old_wt * old_wt_factor) in
         if cur \<noteq> NaN then
           (let w = (if \<not> feq weighted cur
                     then rdiv rd (radd rd (rmul rd (Fin old_wt1) weighted) (rmul rd (Fin new_wt) cur))
                            (Fin (rd (old_wt1 + new_wt)))
                     else weighted)
            in w # ewm_loop_r rd new_wt old_wt_factor w 1 rest)
         else weighted # ewm_loop_r rd new_wt old_wt_factor weighted old_wt1 rest)
      else if cur \<noteq> NaN then cur # ewm_loop_r rd new_wt old_wt_factor cur old_wt rest
      else weighted # ewm_loop_r rd new_wt old_wt_factor weighted old_wt rest)"

text \<open>
  pandas keeps the decay as the centre of mass \<open>com\<close>, which is not negative, and the loop
  starts from \<^verbatim>\<open>alpha = 1. / (1. + com)\<close> and \<^verbatim>\<open>old_wt_factor = 1. - alpha\<close>; an infinite
  value of the series is replaced by NaN first.
\<close>

definition ewm_mean_r :: "(real \<Rightarrow> real) \<Rightarrow> real \<Rightarrow> pyfloat list \<Rightarrow> pyfloat list" where
  "ewm_mean_r rd com xs =
     (let alpha = rd (1 / rd (1 + com));
          old_wt_factor = rd (1 - alpha)
      in case map (\<lambda>x. if is_inf x then NaN else x) xs of
           [] \<Rightarrow> []
         | x # rest \<Rightarrow> x # ewm_loop_r rd alpha old_wt_factor x 1 rest)"

text \<open>
  \<^verbatim>\<open>compute_rsi\<close> in doubles. \<^verbatim>\<open>alpha=1/period\<close> is a double; pandas raises ValueError
  unless \<open>0 < alpha \<le> 1\<close> and takes \<^verbatim>\<open>(1 - alpha) / alpha\<close> as the centre of mass.
\<close>

definition compute_rsi_r :: "(real \<Rightarrow> real) \<Rightarrow> pyfloat list \<Rightarrow> nat \<Rightarrow> py_error + pyfloat list" where
  "compute_rsi_r rd series period =
     (if period = 0 then Inl ZeroDivisionError
      else
        (let alpha = rd (1 / real period);
             delta = diff_r rd series;
             gain = map clip_lower0 delta;
             loss = map (\<lambda>d. fneg (clip_upper0 d)) delta
         in if \<not> (0 < alpha \<and> alpha \<le> 1) then Inl ValueError
            else
              (let com = rd (rd (1 - alpha) / alpha);
                   avg_gain = ewm_mean_r rd com gain;
                   avg_loss = ewm_mean_r rd com loss;
                   rs = map2 (rdiv rd) avg_gain avg_loss
               in Inr (map (\<lambda>r. rsub rd (Fin 100) (rdiv rd (Fin 100) (radd rd (Fin 1) r))) rs))))"

text \<open>\<^verbatim>\<open>compute_macd_diff\<close> in doubles: \<^verbatim>\<open>span=n\<close> has the centre of mass \<open>(n - 1) / 2\<close>.\<close>

definition compute_macd_diff_r :: "(real \<Rightarrow> real) \<Rightarrow> pyfloat list \<Rightarrow> pyfloat list" where
  "compute_macd_diff_r rd series =
     (let fast = ewm_mean_r rd (rd (11 / 2)) series;
          slow = ewm_mean_r rd (rd (25 / 2)) series;
          macd = map2 (rsub rd) fast slow;
          sig = ewm_mean_r rd (rd 4) macd
      in map2 (rsub rd) macd sig)"

text \<open>
  \<^verbatim>\<open>round(x, 1)\<close> on a float of numpy: \<^verbatim>\<open>x * 10\<close>, rounded to the nearest integer (a tie
  to the even one), divided by 10. NaN and the infinities stay.
\<close>

fun rint :: "pyfloat \<Rightarrow> pyfloat" where
  "rint (Fin y) = (if round_half_even y = 0 then zero_of (y < 0) else Fin (of_int (round_half_even y)))"
| "rint x = x"

definition np_round1 :: "(real \<Rightarrow> real) \<Rightarrow> pyfloat \<Rightarrow> pyfloat" where
  "np_round1 rd x = rdiv rd (rint (rmul rd x (Fin 10))) (Fin 10)"

text \<open>\<^verbatim>\<open>series.iloc[-1]\<close>: IndexError on an empty series.\<close>

definition iloc_last :: "'a list \<Rightarrow> py_error + 'a" where
  "iloc_last xs = (if xs = [] then Inl IndexError else Inr (last xs))"

section \<open>The fetch and the indicator policy of test.py\<close>

text \<open>
  The provider's answer to the k-line request of \<^verbatim>\<open>get_klines\<close>, behind the session with
  its retry adapter: no response at all (connection error, timeout, retries used up), or
  a status code with the \<^verbatim>\<open>data\<close> of the JSON body, rows of numbers (\<open>None\<close>: no such key;
  a \<^verbatim>\<open>null\<close> cell is NaN).
\<close>

datatype kline_reply = Unreachable py_error | Reply nat "pyfloat list list option"

text \<open>A cell of the frame: column \<open>i\<close> of a row, NaN where the row is shorter.\<close>

definition cell :: "pyfloat list \<Rightarrow> nat \<Rightarrow> pyfloat" where
  "cell row i = (if i < length row then row ! i else NaN)"

text \<open>
  \<^verbatim>\<open>get_klines\<close>. \<^verbatim>\<open>raise_for_status\<close> raises for a status from 400 to 599. The frame has as
  many columns as the longest row, shorter rows are padded with NaN; after
  \<^verbatim>\<open>.iloc[:, :6]\<close> the assignment of the six column names raises ValueError unless six
  columns are there. \<^verbatim>\<open>pd.to_datetime(..., unit='ms')\<close> raises (a ValueError) for a
  timestamp it cannot represent; which ones those are is pandas' matter, so
  \<open>datetime_ok\<close> is a parameter. Of the frame the model keeps the \<^verbatim>\<open>close\<close> column, the
  only one read by \<^verbatim>\<open>analyze_symbol\<close>.
\<close>

definition get_klines :: "(pyfloat \<Rightarrow> bool) \<Rightarrow> kline_reply \<Rightarrow> py_error + pyfloat list" where
  "get_klines datetime_ok reply =
     (case reply of
        Unreachable e \<Rightarrow> Inl e
      | Reply status body \<Rightarrow>
          if 400 \<le> status \<and> status < 600 then Inl HTTPError
          else
            (let payload = (case body of None \<Rightarrow> [] | Some rows \<Rightarrow> rows) in
             if \<not> (\<exists>row \<in> set payload. 6 \<le> length row) then Inl ValueError
             else if \<not> (\<forall>row \<in> set payload. datetime_ok (cell row 0)) then Inl ValueError
             else Inr (map (\<lambda>row. cell row 4) payload)))"

text \<open>The two direction strings of test.py and the result triple of \<^verbatim>\<open>analyze_symbol\<close>.\<close>

datatype direction = DLong | DShort

text \<open>
  \<^verbatim>\<open>analyze_symbol\<close>: everything stands in one \<^verbatim>\<open>try\<close>; any exception gives the default
  \<^verbatim>\<open>(symbol, long, 0.0)\<close>. The indicators and the strength are computed in doubles.
\<close>

definition analyze_symbol ::
  "(real \<Rightarrow> real) \<Rightarrow> (pyfloat \<Rightarrow> bool) \<Rightarrow> kline_reply \<Rightarrow> symbol \<Rightarrow> symbol \<times> direction \<times> pyfloat" where
  "analyze_symbol rd datetime_ok reply s =
     (case get_klines datetime_ok reply of
        Inl e \<Rightarrow> (s, DLong, Fin 0)
      | Inr close \<Rightarrow>
          (case compute_rsi_r rd close 14 of
             Inl e \<Rightarrow> (s, DLong, Fin 0)
           | Inr rsis \<Rightarrow>
               (case iloc_last rsis of
                  Inl e \<Rightarrow> (s, DLong, Fin 0)
                | Inr rsi \<Rightarrow>
                    (case iloc_last (compute_macd_diff_r rd close) of
                       Inl e \<Rightarrow> (s, DLong, Fin 0)
                     | Inr macd_diff \<Rightarrow>
                         (let signal = (if fless (Fin 0) macd_diff then DLong else DShort);
                              strength = rmul rd (rdiv rd (fabs (rsub rd rsi (Fin 50))) (Fin 50)) (Fin 100);
                              rate = np_round1 rd strength
                          in (s, signal, rate))))))"

text \<open>
  \<^verbatim>\<open>batch_update\<close> of test.py, one round of its loop: every symbol of the universe is
  submitted to the pool at once, each result is stored in \<^verbatim>\<open>results_cache\<close> as its future
  completes (\<open>as_completed\<close>, the order of completion, is the pool's: a parameter), and
  the round ends with the sleep of \<^verbatim>\<open>cycle_delay\<close>. Nothing is written to a file and
  nothing is emitted. \<^verbatim>\<open>analyze_symbol\<close> does not raise, so \<^verbatim>\<open>fut.result()\<close> does not.
\<close>

record test_sched =
  results_cache :: "(symbol \<times> direction \<times> pyfloat) list"
  test_events :: "event list"

definition batch_update ::
  "((symbol \<times> direction \<times> pyfloat) list \<Rightarrow> (symbol \<times> direction \<times> pyfloat) list)
     \<Rightarrow> (real \<Rightarrow> real) \<Rightarrow> (pyfloat \<Rightarrow> bool) \<Rightarrow> (symbol \<Rightarrow> kline_reply) \<Rightarrow> symbol list \<Rightarrow> nat
     \<Rightarrow> test_sched \<Rightarrow> test_sched" where
  "batch_update as_completed rd datetime_ok net symbols cycle_delay st =
     (let futures = map (\<lambda>sy. analyze_symbol rd datetime_ok (net sy) sy) symbols
      in \<lparr>results_cache =
             fold (\<lambda>(sy, sig, rate) c. AList.update sy (sig, rate) c) (as_completed futures)
               (results_cache st),
           test_events = test_events st @ [Slept cycle_delay]\<rparr>)"

text \<open>
  The indicator in the words of the specification, on real numbers: the steps of a price
  series, the smoothing \<open>m' = (1 - a) * m + a * x\<close> started at the first value, and
  \<open>100 - 100 / (1 + avg_gain / avg_loss)\<close>, which is 100 when only the average loss is 0
  and undefined when both averages are 0. \<open>wilder_rsi\<close> puts them together: undefined
  first, then the value of the smoothed gains \<open>max d 0\<close> and losses \<open>max (- d) 0\<close>.
\<close>

fun deltas :: "real \<Rightarrow> real list \<Rightarrow> real list" where
  "deltas prev [] = []"
| "deltas prev (x # xs) = (x - prev) # deltas x xs"

fun smooth :: "real \<Rightarrow> real \<Rightarrow> real list \<Rightarrow> real list" where
  "smooth a m [] = []"
| "smooth a m (x # xs) = ((1 - a) * m + a * x) # smooth a ((1 - a) * m + a * x) xs"

definition wilder_means :: "real \<Rightarrow> real list \<Rightarrow> real list" where
  "wilder_means a xs = (case xs of [] \<Rightarrow> [] | x # rest \<Rightarrow> x # smooth a x rest)"

definition rsi_value :: "real \<Rightarrow> real \<Rightarrow> pyfloat" where
  "rsi_value avg_gain avg_loss =
     (if avg_loss = 0 then (if avg_gain = 0 then NaN else Fin 100)
      else Fin (100 - 100 / (1 + avg_gain / avg_loss)))"

definition wilder_rsi :: "real list \<Rightarrow> nat \<Rightarrow> pyfloat list" where
  "wilder_rsi cs period =
     (case cs of
        [] \<Rightarrow> []
      | c # rest \<Rightarrow>
          NaN # map2 rsi_value
                  (wilder_means (1 / real period) (map (\<lambda>d. max d 0) (deltas c rest)))
                  (wilder_means (1 / real period) (map (\<lambda>d. max (- d) 0) (deltas c rest))))"

text \<open>
  \<open>nn\<close>: a float that is finite and not negative. \<open>percent\<close>: a float that is a number
  from 0 to 100. \<open>all_dates\<close>: a timestamp conversion that never raises.
  \<open>candle c\<close>: a well-formed row of test.py's payload with close \<open>c\<close>.
\<close>

fun nn :: "pyfloat \<Rightarrow> bool" where
  "nn NZero = True"
| "nn (Fin x) = (0 \<le> x)"
| "nn _ = False"

definition percent :: "pyfloat \<Rightarrow> bool" where
  "percent x = (case x of Fin r \<Rightarrow> 0 \<le> r \<and> r \<le> 100 | _ \<Rightarrow> False)"

text \<open>
  What the indicator policy asks of the rounding: it is monotone, it leaves the constants
  of \<^verbatim>\<open>analyze_symbol\<close> unchanged and the factor \<^verbatim>\<open>1/14\<close> positive. \<open>not_neg\<close>: a float that
  is neither a negative number nor the negative infinity.
\<close>

definition monotone_rounding :: "(real \<Rightarrow> real) \<Rightarrow> bool" where
  "monotone_rounding rd \<longleftrightarrow>
     (\<forall>x y. x \<le> y \<longrightarrow> rd x \<le> rd y) \<and> rd 0 = 0 \<and> rd 1 = 1 \<and> rd 50 = 50 \<and> rd (- 50) = - 50
     \<and> rd 100 = 100 \<and> rd 1000 = 1000 \<and> 0 < rd (1 / 14)"

fun not_neg :: "pyfloat \<Rightarrow> bool" where
  "not_neg NInf = False"
| "not_neg (Fin r) = (0 \<le> r)"
| "not_neg _ = True"

definition all_dates :: "pyfloat \<Rightarrow> bool" where
  "all_dates t = True"

definition candle :: "real \<Rightarrow> pyfloat list" where
  "candle c = [Fin 1700000000000, Fin c, Fin c, Fin c, Fin c, Fin 1]"

section \<open>The session of test.py\<close>

text \<open>
  \<^verbatim>\<open>create_session\<close> builds the \<^verbatim>\<open>Retry\<close> of urllib3 with its three counters set to
  \<^verbatim>\<open>retries\<close>, for GET only, and mounts it for both schemes.
\<close>

record retry =
  total :: int
  read :: int
  connect :: int
  backoff_factor :: real
  status_forcelist :: "nat list"
  allowed_methods :: "string list"

definition create_session :: "int \<Rightarrow> real \<Rightarrow> nat list \<Rightarrow> retry" where
  "create_session retries backoff forcelist =
     \<lparr>total = retries, read = retries, connect = retries, backoff_factor = backoff,
      status_forcelist = forcelist, allowed_methods = [''GET'']\<rparr>"

text \<open>
  What the adapter does with the \<^verbatim>\<open>Retry\<close> is urllib3's, modelled from its documented
  behaviour: an attempt ends in a connection error, a read error or a status; every
  failed attempt takes one from \<^verbatim>\<open>total\<close> and from the counter of its kind (a status of
  the force list counts against \<^verbatim>\<open>total\<close> alone); the request is given up with
  MaxRetryError once a counter is below zero; a read error of a method that is not
  allowed is raised at once. The sleep between attempts is not modelled.
  \<open>urlopen r m outcomes n\<close> sends attempt number \<open>n\<close> and returns the result with the number
  of attempts made so far.
\<close>

datatype attempt = ConnectFailure | ReadFailure | Status nat

definition is_exhausted :: "retry \<Rightarrow> bool" where
  "is_exhausted r = (min (total r) (min (connect r) (read r)) < 0)"

function urlopen :: "retry \<Rightarrow> string \<Rightarrow> (nat \<Rightarrow> attempt) \<Rightarrow> nat \<Rightarrow> (py_error + nat) \<times> nat" where
  "urlopen r m outcomes n =
     (case outcomes n of
        Status c \<Rightarrow>
          if c \<in> set (status_forcelist r) \<and> m \<in> set (allowed_methods r) then
            (if is_exhausted (r\<lparr>total := total r - 1\<rparr>) then (Inl MaxRetryError, Suc n)
             else urlopen (r\<lparr>total := total r - 1\<rparr>) m outcomes (Suc n))
          else (Inr c, Suc n)
      | ConnectFailure \<Rightarrow>
          if is_exhausted (r\<lparr>total := total r - 1, connect := connect r - 1\<rparr>)
          then (Inl MaxRetryError, Suc n)
          else urlopen (r\<lparr>total := total r - 1, connect := connect r - 1\<rparr>) m outcomes (Suc n)
      | ReadFailure \<Rightarrow>
          if m \<notin> set (allowed_methods r) then (Inl TimeoutError, Suc n)
          else if is_exhausted (r\<lparr>total := total r - 1, read := read r - 1\<rparr>)
          then (Inl MaxRetryError, Suc n)
          else urlopen (r\<lparr>total := total r - 1, read := read r - 1\<rparr>) m outcomes (Suc n))"
  by pat_completeness auto
termination
  by (relation "measure (\<lambda>(r, m, outcomes, n). nat (total r + 1))")
     (auto simp: is_exhausted_def)

declare urlopen.simps [simp del]

section \<open>Properties of the batch scheduler\<close>

lemma less_ceil_div: "0 < B \<Longrightarrow> (j < ceil_div n B) = (j * B < n)"
proof -
  assume B: "0 < B"
  have "(j < ceil_div n B) = (Suc j \<le> (n + B - 1) div B)"
    by (simp add: ceil_div_def Suc_le_eq)
  also have "\<dots> = (Suc j * B \<le> n + B - 1)"
    using B by (simp add: less_eq_div_iff_mult_less_eq)
  also have "\<dots> = (j * B < n)"
    using B by auto
  finally show ?thesis .
qed

lemma py_range_steps:
  "0 < B \<Longrightarrow> py_range (j * B) n B = map (\<lambda>k. k * B) [j ..< ceil_div n B]"
proof (induction "ceil_div n B - j" arbitrary: j)
  case 0
  then have "\<not> j < ceil_div n B" by simp
  with 0 have "n \<le> j * B" by (simp add: less_ceil_div)
  with 0 show ?case by (simp add: py_range.simps)
next
  case (Suc m)
  then have lt: "j < ceil_div n B" by simp
  then have "j * B < n" using Suc.prems by (simp add: less_ceil_div)
  moreover have "py_range (Suc j * B) n B = map (\<lambda>k. k * B) [Suc j ..< ceil_div n B]"
    using Suc by (intro Suc.hyps(1)) auto
  ultimately show ?case
    using lt Suc.prems by (subst py_range.simps) (simp add: upt_conv_Cons add.commute)
qed

lemma gather_all_ok: "gather (map (\<lambda>s. Inr (f s)) b) = Inr (map f b)"
  by (induction b) auto

lemma keys_merge_results:
  "fst ` set (merge_results rs c) = fst ` set c \<union> fst ` set rs"
  unfolding merge_results_def
proof (induction rs arbitrary: c)
  case Nil
  then show ?case by simp
next
  case (Cons p rs)
  obtain k v where p: "p = (k, v)" by (cases p)
  show ?case by (simp add: p Cons.IH dom_update Un_commute Un_left_commute insert_commute)
qed

lemma ordered_snapshot_covered:
  "set U \<subseteq> fst ` set c \<Longrightarrow> ordered_snapshot c U = Inr (map (\<lambda>s. (s, the (map_of c s))) U)"
proof (induction U)
  case Nil
  then show ?case by simp
next
  case (Cons s U)
  then obtain v where "map_of c s = Some v"
    by (metis list.set_intros(1) map_of_eq_None_iff not_Some_eq subsetD)
  with Cons show ?case by simp
qed

lemma update_as_map:
  "distinct (map fst c) \<Longrightarrow> k \<in> fst ` set c \<Longrightarrow>
   AList.update k v c = map (\<lambda>(k', v'). (k', if k' = k then v else v')) c"
proof (induction c)
  case Nil
  then show ?case by simp
next
  case (Cons p c)
  obtain k' v' where p: "p = (k', v')" by (cases p)
  show ?case
  proof (cases "k' = k")
    case True
    then have "k \<notin> fst ` set c" using Cons.prems(1) p by auto
    then have "map (\<lambda>(k', v'). (k', if k' = k then v else v')) c = c"
      by (intro map_idI) (auto simp: image_iff split: prod.splits)
    with True p show ?thesis by simp
  next
    case False
    with Cons p show ?thesis by auto
  qed
qed

lemma merge_as_map:
  "distinct (map fst c) \<Longrightarrow> set b \<subseteq> fst ` set c \<Longrightarrow>
   merge_results (map (\<lambda>x. (x, g x)) b) c = map (\<lambda>(k, v). (k, if k \<in> set b then g k else v)) c"
proof (induction b arbitrary: c)
  case Nil
  then show ?case by (simp add: merge_results_def split_def)
next
  case (Cons x b)
  let ?c = "map (\<lambda>(k', v'). (k', if k' = x then g x else v')) c"
  have u: "AList.update x (g x) c = ?c"
    using Cons.prems by (intro update_as_map) auto
  have k: "map fst ?c = map fst c" by (simp add: split_def comp_def)
  have "merge_results (map (\<lambda>x. (x, g x)) (x # b)) c = merge_results (map (\<lambda>x. (x, g x)) b) ?c"
    by (simp add: merge_results_def u)
  also have "\<dots> = map (\<lambda>(k, v). (k, if k \<in> set b then g k else v)) ?c"
  proof (rule Cons.IH)
    show "distinct (map fst ?c)" using Cons.prems(1) by (simp only: k)
    have "fst ` set ?c = fst ` set c" using k by (metis list.set_map)
    then show "set b \<subseteq> fst ` set ?c" using Cons.prems(2) by simp
  qed
  also have "\<dots> = map (\<lambda>(k, v). (k, if k \<in> set (x # b) then g k else v)) c"
    by (auto simp: split_def)
  finally show ?case .
qed

lemma latest_from_snoc:
  "latest_from t (bs @ [b]) s = (if s \<in> set b then Some (t + length bs) else latest_from t bs s)"
  by (induction bs arbitrary: t) (auto split: option.splits)

lemma keys_cache_after: "map fst (cache_after r U B t k c) = map fst c"
  by (simp add: cache_after_def split_def comp_def)

lemma cache_after_0: "cache_after r U B t 0 c = c"
  by (simp add: cache_after_def split_def)

lemma cache_after_Suc:
  assumes "k < ceil_div (length U) B"
  shows "cache_after r U B t (Suc k) c =
           map (\<lambda>(key, v). (key, if key \<in> set (batch_at U B k) then r (t + k) key else v))
             (cache_after r U B t k c)"
proof -
  let ?bs = "map (batch_at U B) [0 ..< ceil_div (length U) B]"
  have "take (Suc k) ?bs = take k ?bs @ [batch_at U B k]"
    using assms by (simp add: take_Suc_conv_app_nth)
  moreover have "length (take k ?bs) = k" using assms by simp
  ultimately have "\<And>s. latest_from t (take (Suc k) ?bs) s =
      (if s \<in> set (batch_at U B k) then Some (t + k) else latest_from t (take k ?bs) s)"
    by (simp add: latest_from_snoc)
  then show ?thesis
    by (simp add: cache_after_def split_def comp_def)
qed

lemma pass_loop_from:
  assumes "0 < B" and "distinct (map fst c0)" and "set U \<subseteq> fst ` set c0"
    and "\<forall>k < ceil_div (length U) B. \<forall>s \<in> set (batch_at U B k). fetch (t + k) s = Inr (s, r (t + k) s)"
  shows "j + m \<le> ceil_div (length U) B \<Longrightarrow>
         pass_loop fetch U B d (t + j) (map (\<lambda>k. k * B) [j ..< j + m])
           \<lparr>cache = cache_after r U B t j c0, events = ev\<rparr>
         = Inr \<lparr>cache = cache_after r U B t (j + m) c0,
                events = ev @ concat (map (\<lambda>k. [Persisted (cache_after r U B t (Suc k) c0),
                     Emitted (map (\<lambda>s. (s, the (map_of (cache_after r U B t (Suc k) c0) s))) U),
                     Slept d]) [j ..< j + m])\<rparr>"
proof (induction m arbitrary: j ev)
  case 0
  then show ?case by simp
next
  case (Suc m)
  then have j: "j < ceil_div (length U) B" by simp
  have keys: "fst ` set (cache_after r U B t k c0) = fst ` set c0" for k
    using keys_cache_after [of r U B t k c0] by (metis list.set_map)
  have cov: "set U \<subseteq> fst ` set (cache_after r U B t (Suc j) c0)"
    using assms(3) keys by simp
  have sub: "set (batch_at U B j) \<subseteq> fst ` set (cache_after r U B t j c0)"
  proof
    fix s assume "s \<in> set (batch_at U B j)"
    then have "s \<in> set U" unfolding batch_at_def by (meson in_set_dropD in_set_takeD)
    then show "s \<in> fst ` set (cache_after r U B t j c0)" using assms(3) keys by blast
  qed
  have sl: "py_slice U (j * B) (j * B + B) = batch_at U B j"
    by (simp add: py_slice_def batch_at_def)
  have "map (fetch (t + j)) (batch_at U B j) = map (\<lambda>s. Inr (s, r (t + j) s)) (batch_at U B j)"
    using assms(4) j by simp
  then have g: "gather (map (fetch (t + j)) (batch_at U B j))
      = Inr (map (\<lambda>s. (s, r (t + j) s)) (batch_at U B j))"
    using gather_all_ok [of "\<lambda>s. (s, r (t + j) s)" "batch_at U B j"] by (simp only:)
  have m: "merge_results (map (\<lambda>s. (s, r (t + j) s)) (batch_at U B j)) (cache_after r U B t j c0)
      = cache_after r U B t (Suc j) c0"
    using merge_as_map [OF _ sub, of "r (t + j)"] assms(2)
    by (simp add: keys_cache_after cache_after_Suc [OF j])
  have step: "run_batch (fetch (t + j)) U d (batch_at U B j)
        \<lparr>cache = cache_after r U B t j c0, events = ev\<rparr>
      = Inr \<lparr>cache = cache_after r U B t (Suc j) c0,
            events = ev @ [Persisted (cache_after r U B t (Suc j) c0),
              Emitted (map (\<lambda>s. (s, the (map_of (cache_after r U B t (Suc j) c0) s))) U), Slept d]\<rparr>"
    using cov by (simp add: run_batch_def g m ordered_snapshot_covered Let_def)
  have up: "[j ..< j + Suc m] = j # [Suc j ..< Suc j + m]"
    by (simp add: upt_conv_Cons)
  show ?case
    unfolding up using Suc.IH [of "Suc j"] Suc.prems step sl by simp
qed


lemma take_batches: "concat (map (batch_at U B) [0 ..< n]) = take (n * B) U"
proof (induction n)
  case 0
  then show ?case by simp
next
  case (Suc n)
  have "take (n * B) U @ take B (drop (n * B) U) = take (n * B + B) U"
    by (simp add: take_add)
  with Suc show ?case by (simp add: batch_at_def add.commute)
qed

lemma concat_batches:
  assumes "0 < B"
  shows "concat (map (batch_at U B) [0 ..< ceil_div (length U) B]) = U"
proof -
  have "\<not> ceil_div (length U) B * B < length U"
    using less_ceil_div [OF assms, of "ceil_div (length U) B" "length U"] by simp
  then have "length U \<le> ceil_div (length U) B * B"
    by simp
  then show ?thesis by (simp add: take_batches)
qed

lemma length_batch_at:
  assumes "0 < B" and "k < ceil_div (length U) B"
  shows "length (batch_at U B k) = (if Suc k * B \<le> length U then B else length U mod B)"
proof (cases "Suc k * B \<le> length U")
  case True
  then show ?thesis by (auto simp: batch_at_def)
next
  case False
  have lt: "k * B < length U" using assms by (simp add: less_ceil_div)
  have "length U div B = k"
  proof (rule div_nat_eqI)
    show "B * k \<le> length U" using lt by (simp add: mult.commute)
    show "length U < B * Suc k" using False by (simp add: mult.commute)
  qed
  then have "length U mod B = length U - k * B"
    by (metis minus_mult_div_eq_mod mult.commute)
  with False lt show ?thesis by (auto simp: batch_at_def)
qed

lemma keys_setdefault: "fst ` set (setdefault k v c) = insert k (fst ` set c)"
proof (cases "map_of c k")
  case None
  then show ?thesis by (simp add: setdefault_def)
next
  case (Some w)
  then have "k \<in> fst ` set c" by (metis map_of_eq_None_iff option.distinct(1))
  with Some show ?thesis by (auto simp: setdefault_def)
qed

lemma keys_prefill: "fst ` set (prefill U c) = fst ` set c \<union> set U"
  unfolding prefill_def
  by (induction U arbitrary: c) (auto simp: keys_setdefault)


lemma distinct_setdefault: "distinct (map fst c) \<Longrightarrow> distinct (map fst (setdefault k v c))"
  by (auto simp: setdefault_def map_of_eq_None_iff split: option.splits)

lemma distinct_prefill: "distinct (map fst c) \<Longrightarrow> distinct (map fst (prefill U c))"
  unfolding prefill_def
  by (induction U arbitrary: c) (auto simp: distinct_setdefault)

lemma latest_from_None: "(latest_from t bs s = None) = (s \<notin> set (concat bs))"
proof (induction bs arbitrary: t)
  case Nil
  then show ?case by simp
next
  case (Cons b bs)
  show ?case using Cons.IH [of "Suc t"] by (auto split: option.splits)
qed

lemma cache_after_pass:
  assumes "0 < B" and "fst ` set c \<subseteq> set U"
  shows "cache_after (\<lambda>u s. v) U B t (ceil_div (length U) B) c = map (\<lambda>(k, x). (k, v)) c"
proof -
  have "latest_from t (map (batch_at U B) [0 ..< ceil_div (length U) B]) k \<noteq> None"
    if "k \<in> fst ` set c" for k
    using that assms(2) concat_batches [OF assms(1), of U] by (auto simp: latest_from_None)
  then have "(case latest_from t (map (batch_at U B) [0 ..< ceil_div (length U) B]) (fst p) of
      Some u \<Rightarrow> v | None \<Rightarrow> snd p) = v" if "p \<in> set c" for p
    using that by (cases "latest_from t (map (batch_at U B) [0 ..< ceil_div (length U) B]) (fst p)") force+
  then show ?thesis
    by (simp add: cache_after_def split_def)
qed

text \<open>
  Claim C1. In api\_utils.py, with a batch size \<open>B > 0\<close>, a cache (a dict: distinct keys)
  that has a key for every symbol of the universe \<open>U\<close> (the prefill gives that), and
  fetches that all return in this pass (\<open>r u s\<close> being the signal that the fetch of \<open>s\<close>
  returns in batch number \<open>u\<close>), one pass of \<^verbatim>\<open>rotating_analysis\<close> returns normally,
  having run \<open>\<lceil>N / B\<rceil>\<close> batches: the \<open>k\<close>-th batch is the \<open>k\<close>-th consecutive slice of \<open>U\<close>
  (the slices concatenate to \<open>U\<close>; each has \<open>B\<close> symbols but a last one of \<open>N mod B\<close>),
  and for each batch in turn the trace gains exactly: the whole cache written to the
  file, in which the entries of this batch's symbols now hold the signals just fetched
  and every other entry is as it was after the batch before; the whole cache emitted in
  the order of \<open>U\<close>; the sleep of the inter-batch delay. For 45 symbols and \<open>B = 30\<close> that
  is 2 batches.
\<close>

theorem pass_is_ceil_batches:
  assumes "0 < B" and "distinct (map fst (cache st))" and "set U \<subseteq> fst ` set (cache st)"
    and "\<forall>k < ceil_div (length U) B. \<forall>s \<in> set (batch_at U B k).
           fetch (t + k) s = Inr (s, r (t + k) s)"
  shows "analysis_pass fetch U B d t st =
           Inr \<lparr>cache = cache_after r U B t (ceil_div (length U) B) (cache st),
                events = events st @ concat (map (\<lambda>k.
                    [Persisted (cache_after r U B t (Suc k) (cache st)),
                     Emitted (map (\<lambda>s. (s, the (map_of (cache_after r U B t (Suc k) (cache st)) s))) U),
                     Slept d]) [0 ..< ceil_div (length U) B])\<rparr>
         \<and> concat (map (batch_at U B) [0 ..< ceil_div (length U) B]) = U
         \<and> (\<forall>k < ceil_div (length U) B.
               length (batch_at U B k) = (if Suc k * B \<le> length U then B else length U mod B))
         \<and> (length U = 45 \<and> B = 30 \<longrightarrow> ceil_div (length U) B = 2)"
proof -
  have st: "\<lparr>cache = cache st, events = events st\<rparr> = st"
    by (cases st) simp
  have idx: "py_range 0 (length U) B = map (\<lambda>k. k * B) [0 ..< 0 + ceil_div (length U) B]"
    using py_range_steps [OF assms(1), of 0 "length U"] by simp
  have "analysis_pass fetch U B d t st =
      pass_loop fetch U B d t (map (\<lambda>k. k * B) [0 ..< ceil_div (length U) B]) st"
    using assms(1) idx by (simp add: analysis_pass_def)
  also have "\<dots> = Inr \<lparr>cache = cache_after r U B t (ceil_div (length U) B) (cache st),
                events = events st @ concat (map (\<lambda>k.
                    [Persisted (cache_after r U B t (Suc k) (cache st)),
                     Emitted (map (\<lambda>s. (s, the (map_of (cache_after r U B t (Suc k) (cache st)) s))) U),
                     Slept d]) [0 ..< ceil_div (length U) B])\<rparr>"
    using pass_loop_from [OF assms, of 0 "ceil_div (length U) B" d "events st"]
    by (simp add: st cache_after_0)
  finally have run: "analysis_pass fetch U B d t st =
           Inr \<lparr>cache = cache_after r U B t (ceil_div (length U) B) (cache st),
                events = events st @ concat (map (\<lambda>k.
                    [Persisted (cache_after r U B t (Suc k) (cache st)),
                     Emitted (map (\<lambda>s. (s, the (map_of (cache_after r U B t (Suc k) (cache st)) s))) U),
                     Slept d]) [0 ..< ceil_div (length U) B])\<rparr>" .
  have n45: "length U = 45 \<and> B = 30 \<longrightarrow> ceil_div (length U) B = 2"
    by (simp add: ceil_div_def)
  show ?thesis
    using run concat_batches [OF assms(1)] length_batch_at [OF assms(1)] n45 by blast
qed

lemma length_universe45: "length universe45 = 45"
  by (simp add: universe45_def)

text \<open>
  The scenario of the specification run on the code: 45 symbols, batch size 30, delay 60,
  from the prefilled empty cache, with the \<^verbatim>\<open>fetch_kline\<close> of api\_utils.py and a provider
  that times out on every request. The pass returns; its trace has 2 * 3 events, 2 of
  them emissions; the slices have 30 and 15 symbols; at the end every symbol of the
  universe holds the request-failed tag in place of the placeholder.
\<close>

theorem pass_is_ceil_batches_witness:
  "length universe45 = 45 \<and>
   (\<exists>st'. analysis_pass (\<lambda>t s. fetch_kline no_readers [] (\<lambda>df. Inr (1 / 2)) (Failed TimeoutError) s)
            universe45 30 60 0 \<lparr>cache = prefill universe45 [], events = []\<rparr> = Inr st'
      \<and> length (events st') = 6
      \<and> length (filter (\<lambda>e. case e of Emitted _ \<Rightarrow> True | _ \<Rightarrow> False) (events st')) = 2
      \<and> fst ` set (cache st') = set universe45
      \<and> snd ` set (cache st') = {RequestFailed})
   \<and> map length (map (batch_at universe45 30) [0 ..< ceil_div 45 30]) = [30, 15]"
proof -
  let ?st = "\<lparr>cache = prefill universe45 [], events = []\<rparr>"
  have cov: "set universe45 \<subseteq> fst ` set (cache ?st)"
    by (simp add: keys_prefill)
  have dis: "distinct (map fst (cache ?st))"
    by (simp add: distinct_prefill)
  have ret: "\<forall>k < ceil_div (length universe45) 30. \<forall>s \<in> set (batch_at universe45 30 k).
      fetch_kline no_readers [] (\<lambda>df. Inr (1 / 2)) (Failed TimeoutError) s
        = Inr (s, RequestFailed)"
    by (simp add: fetch_kline_def try_frame_def)
  have c: "ceil_div 45 30 = 2" by (simp add: ceil_div_def)
  have u: "[0 ..< 2] = [0, Suc 0]" by (simp add: upt_rec)
  have ne: "prefill universe45 [] \<noteq> []"
    using keys_prefill [of universe45 "[]"] length_universe45 by auto
  have fin: "cache_after (\<lambda>u s. RequestFailed) universe45 30 0 2 (prefill universe45 [])
      = map (\<lambda>(k, x). (k, RequestFailed)) (prefill universe45 [])"
    using cache_after_pass [of 30 "prefill universe45 []" universe45 RequestFailed 0]
    by (simp add: keys_prefill length_universe45 c)
  have vals: "snd ` set (map (\<lambda>(k, x). (k, RequestFailed)) (prefill universe45 [])) = {RequestFailed}"
    using ne by (cases "prefill universe45 []") (auto simp: image_iff)
  have keys: "fst ` set (map (\<lambda>(k, x). (k, RequestFailed)) (prefill universe45 [])) = set universe45"
    using keys_prefill [of universe45 "[]"] by (force simp: image_iff)
  note inst = pass_is_ceil_batches [of 30 ?st universe45
      "\<lambda>t s. fetch_kline no_readers [] (\<lambda>df. Inr (1 / 2)) (Failed TimeoutError) s" 0
      "\<lambda>u s. RequestFailed" 60, OF _ dis cov ret]
  have "map length (map (batch_at universe45 30) [0 ..< ceil_div 45 30]) = [30, 15]"
    using inst by (simp add: length_universe45 c u)
  then show ?thesis
    using inst vals keys by (simp add: length_universe45 c u fin)
qed

lemma keys_results_cache:
  "fst ` set (fold (\<lambda>(x, y). AList.update x y) xs c) = fst ` set c \<union> fst ` set xs"
proof (induction xs arbitrary: c)
  case Nil
  then show ?case by simp
next
  case (Cons p xs)
  obtain k v where p: "p = (k, v)" by (cases p)
  show ?case by (simp add: p Cons.IH dom_update Un_commute Un_left_commute insert_commute)
qed

lemma batch_update_trace:
  "test_events (batch_update ac rd dt net U d st) = test_events st @ [Slept d]"
  by (simp add: batch_update_def Let_def)

lemma fst_analyze_symbol: "fst (analyze_symbol rd dt reply s) = s"
  by (simp add: analyze_symbol_def Let_def split: sum.splits)

lemma batch_update_keys:
  "fst ` set (results_cache (batch_update (\<lambda>fs. fs) rd dt net U d st))
     = fst ` set (results_cache st) \<union> set U"
proof -
  have "fst ` (\<lambda>sy. analyze_symbol rd dt (net sy) sy) ` set U = set U"
    by (simp add: image_image fst_analyze_symbol)
  then show ?thesis
    by (simp add: batch_update_def Let_def keys_results_cache image_image)
qed

text \<open>
  test.py has no batches: one round of \<^verbatim>\<open>batch_update\<close> over the same 45 symbols stores a
  result for every one of them and then sleeps once; the trace holds that sleep and
  neither a write of the cache nor an emission.
\<close>

theorem one_round_counterexample:
  "length universe45 = 45 \<and> ceil_div 45 30 = 2
   \<and> test_events (batch_update (\<lambda>fs. fs) binary64 all_dates (\<lambda>s. Unreachable TimeoutError) universe45 60
        \<lparr>results_cache = [], test_events = []\<rparr>) = [Slept 60]
   \<and> fst ` set (results_cache (batch_update (\<lambda>fs. fs) binary64 all_dates (\<lambda>s. Unreachable TimeoutError)
        universe45 60 \<lparr>results_cache = [], test_events = []\<rparr>)) = set universe45"
  by (simp add: length_universe45 ceil_div_def batch_update_trace batch_update_keys)


section \<open>The cache invariant\<close>

lemma map_of_setdefault:
  "map_of (setdefault k v c) s =
     (case map_of c s of Some w \<Rightarrow> Some w | None \<Rightarrow> if s = k then Some v else None)"
  by (auto simp: setdefault_def map_add_def split: option.splits)

lemma map_of_prefill:
  "map_of (prefill U c) s =
     (case map_of c s of Some w \<Rightarrow> Some w | None \<Rightarrow> if s \<in> set U then Some Analyzing else None)"
  unfolding prefill_def
  by (induction U arbitrary: c) (auto simp: map_of_setdefault split: option.splits)

lemma keys_inv_prefill: "distinct (map fst c0) \<Longrightarrow> keys_inv c0 U (prefill U c0)"
  by (simp add: keys_inv_def keys_prefill distinct_prefill)

lemma gather_Inr: "gather rs = Inr vs \<Longrightarrow> rs = map Inr vs"
  by (induction rs arbitrary: vs) (auto split: sum.splits)

lemma distinct_merge_results:
  "distinct (map fst c) \<Longrightarrow> distinct (map fst (merge_results rs c))"
  unfolding merge_results_def
  by (induction rs arbitrary: c) (auto simp: distinct_update)

lemma map_of_merge_fun:
  "map_of (merge_results (map (\<lambda>x. (x, g x)) b) c) s = (if s \<in> set b then Some (g s) else map_of c s)"
  unfolding merge_results_def
  by (induction b arbitrary: c) (auto simp: update_conv')

lemma gathered_results:
  assumes own: "\<forall>s s' v. f s = Inr (s', v) \<longrightarrow> s' = s"
    and g: "gather (map f b) = Inr results"
  shows "results = map (\<lambda>x. (x, the (returned (f x)))) b"
proof -
  from g have m: "map f b = map Inr results" by (rule gather_Inr)
  then have len: "length results = length b" by (metis length_map)
  show ?thesis
  proof (rule nth_equalityI)
    show "length results = length (map (\<lambda>x. (x, the (returned (f x)))) b)" using len by simp
  next
    fix i assume i: "i < length results"
    then have "f (b ! i) = Inr (results ! i)"
      using m len by (metis nth_map)
    moreover obtain s' v where r: "results ! i = (s', v)" by (cases "results ! i")
    ultimately have "f (b ! i) = Inr (s', v)" by simp
    with own have "s' = b ! i" by blast
    then show "results ! i = map (\<lambda>x. (x, the (returned (f x)))) b ! i"
      using i len r \<open>f (b ! i) = Inr (s', v)\<close> by (simp add: returned_def)
  qed
qed

lemma run_batch_cache:
  assumes own: "\<forall>s s' v. f s = Inr (s', v) \<longrightarrow> s' = s"
    and run: "run_batch f U d b st = Inr st'"
  shows "cache st' = merge_results (map (\<lambda>x. (x, the (returned (f x)))) b) (cache st)"
    and "\<forall>x \<in> set b. \<exists>v. f x = Inr (x, v)"
proof -
  from run obtain results where g: "gather (map f b) = Inr results"
    and c: "cache st' = merge_results results (cache st)"
    by (auto simp: run_batch_def Let_def split: sum.splits)
  show "cache st' = merge_results (map (\<lambda>x. (x, the (returned (f x)))) b) (cache st)"
    using gathered_results [OF own g] c by simp
  from g have m: "map f b = map Inr results" by (rule gather_Inr)
  show "\<forall>x \<in> set b. \<exists>v. f x = Inr (x, v)"
  proof
    fix x assume "x \<in> set b"
    then have "f x \<in> set (map Inr results)" using m by (metis image_eqI set_map)
    then obtain p where "f x = Inr p" by auto
    then show "\<exists>v. f x = Inr (x, v)" using own by (cases p) auto
  qed
qed

lemma run_batch_value:
  assumes own: "\<forall>s s' v. f s = Inr (s', v) \<longrightarrow> s' = s"
    and run: "run_batch f U d b st = Inr st'"
  shows "map_of (cache st') s = (if s \<in> set b then returned (f s) else map_of (cache st) s)"
proof -
  have "map_of (cache st') s = (if s \<in> set b then Some (the (returned (f s))) else map_of (cache st) s)"
    using run_batch_cache(1) [OF own run] by (simp add: map_of_merge_fun)
  moreover have "s \<in> set b \<Longrightarrow> Some (the (returned (f s))) = returned (f s)"
    using run_batch_cache(2) [OF own run] by (auto simp: returned_def)
  ultimately show ?thesis by simp
qed

lemma run_batch_keys:
  assumes own: "\<forall>s s' v. f s = Inr (s', v) \<longrightarrow> s' = s"
    and inv: "keys_inv c0 U (cache st)"
    and sub: "set b \<subseteq> set U"
    and run: "run_batch f U d b st = Inr st'"
  shows "keys_inv c0 U (cache st')"
proof -
  have "fst ` set (map (\<lambda>x. (x, the (returned (f x)))) b) = set b"
    by (auto simp: image_iff)
  then show ?thesis
    using inv sub run_batch_cache(1) [OF own run]
    by (auto simp: keys_inv_def keys_merge_results distinct_merge_results)
qed

lemma set_py_slice: "set (py_slice U i j) \<subseteq> set U"
  unfolding py_slice_def by (meson set_drop_subset set_take_subset subset_trans)

lemma pass_loop_inv:
  assumes own: "\<forall>t s s' v. fetch t s = Inr (s', v) \<longrightarrow> s' = s"
  shows "keys_inv c0 U (cache st) \<Longrightarrow> pass_loop fetch U B d t idxs st = Inr st'
         \<Longrightarrow> keys_inv c0 U (cache st') \<and>
             (\<forall>s. map_of (cache st') s =
                (case latest_from t (map (\<lambda>i. py_slice U i (i + B)) idxs) s of
                   Some u \<Rightarrow> returned (fetch u s)
                 | None \<Rightarrow> map_of (cache st) s))"
proof (induction idxs arbitrary: t st)
  case Nil
  then show ?case by simp
next
  case (Cons i idxs)
  from Cons.prems(2) obtain st1 where
    r: "run_batch (fetch t) U d (py_slice U i (i + B)) st = Inr st1"
    and l: "pass_loop fetch U B d (Suc t) idxs st1 = Inr st'"
    by (auto split: sum.splits)
  have o: "\<forall>s s' v. fetch t s = Inr (s', v) \<longrightarrow> s' = s" using own by blast
  have k1: "keys_inv c0 U (cache st1)"
    using run_batch_keys [OF o Cons.prems(1) set_py_slice r] .
  have v1: "\<And>s. map_of (cache st1) s =
      (if s \<in> set (py_slice U i (i + B)) then returned (fetch t s) else map_of (cache st) s)"
    using run_batch_value [OF o r] .
  from Cons.IH [OF k1 l] show ?case
    by (auto simp: v1 split: option.splits)
qed

lemma pass_loop_append:
  "pass_loop fetch U B d t (xs @ ys) st =
     bind_err (pass_loop fetch U B d t xs st) (pass_loop fetch U B d (t + length xs) ys)"
  by (induction xs arbitrary: t st) (auto simp: bind_err_def split: sum.splits)

lemma passes_flat:
  "0 < B \<Longrightarrow> passes fetch U B d t n st =
     pass_loop fetch U B d t (concat (replicate n (py_range 0 (length U) B))) st"
  by (induction n arbitrary: t st)
     (auto simp: analysis_pass_def pass_loop_append bind_err_def split: sum.splits)

lemma state_after_flat:
  assumes "0 < B"
  shows "state_after fetch U B d c0 n k =
     pass_loop fetch U B d 0
       (concat (replicate n (py_range 0 (length U) B)) @ take k (py_range 0 (length U) B))
       \<lparr>cache = prefill U c0, events = []\<rparr>"
  by (simp add: state_after_def rotating_analysis_def passes_flat [OF assms] pass_loop_append
      length_concat sum_list_replicate mult.commute)

lemma slices_are_batches:
  assumes "0 < B"
  shows "map (\<lambda>i. py_slice U i (i + B)) (py_range 0 (length U) B)
         = map (batch_at U B) [0 ..< ceil_div (length U) B]"
  using py_range_steps [OF assms, of 0 "length U"]
  by (simp add: py_slice_def batch_at_def)

lemma map_concat_replicate:
  "map f (concat (replicate n xs)) = concat (replicate n (map f xs))"
  by (induction n) simp_all

lemma schedule_slices:
  assumes "0 < B"
  shows "map (\<lambda>i. py_slice U i (i + B))
           (concat (replicate n (py_range 0 (length U) B)) @ take k (py_range 0 (length U) B))
         = schedule U B n k"
proof -
  have "map (\<lambda>i. py_slice U i (i + B))
           (concat (replicate n (py_range 0 (length U) B)) @ take k (py_range 0 (length U) B))
      = concat (replicate n (map (\<lambda>i. py_slice U i (i + B)) (py_range 0 (length U) B)))
        @ take k (map (\<lambda>i. py_slice U i (i + B)) (py_range 0 (length U) B))"
    by (simp only: map_append map_concat_replicate take_map)
  then show ?thesis
    unfolding slices_are_batches [OF assms] schedule_def .
qed

lemma state_after_cache:
  assumes own: "\<forall>t s s' v. fetch t s = Inr (s', v) \<longrightarrow> s' = s"
    and B: "0 < B"
    and d: "distinct (map fst c0)"
    and run: "state_after fetch U B d c0 n k = Inr st"
  shows "fst ` set (cache st) = fst ` set c0 \<union> set U"
    and "distinct (map fst (cache st))"
    and "map_of (cache st) s =
           (case latest_from 0 (schedule U B n k) s of
              Some u \<Rightarrow> returned (fetch u s)
            | None \<Rightarrow> (case map_of c0 s of
                         Some w \<Rightarrow> Some w
                       | None \<Rightarrow> if s \<in> set U then Some Analyzing else None))"
proof -
  have k0: "keys_inv c0 U (cache \<lparr>cache = prefill U c0, events = []\<rparr>)"
    using keys_inv_prefill [OF d] by simp
  note r = pass_loop_inv [OF own k0 run [unfolded state_after_flat [OF B]]]
  show "fst ` set (cache st) = fst ` set c0 \<union> set U" "distinct (map fst (cache st))"
    using r by (simp_all add: keys_inv_def)
  show "map_of (cache st) s =
           (case latest_from 0 (schedule U B n k) s of
              Some u \<Rightarrow> returned (fetch u s)
            | None \<Rightarrow> (case map_of c0 s of
                         Some w \<Rightarrow> Some w
                       | None \<Rightarrow> if s \<in> set U then Some Analyzing else None))"
    using r unfolding schedule_slices [OF B] by (auto simp: map_of_prefill split: option.splits)
qed

lemma fetch_kline_own: "fetch_kline P dm fit resp s = Inr (s', v) \<Longrightarrow> s' = s"
  by (auto simp: fetch_kline_def split: sum.splits option.splits if_splits)


text \<open>
  Claim C4, as the code has it. \<^verbatim>\<open>__main__\<close> loads the cache file into the cache before
  the task starts and nothing removes a key, so the cache covers the union of the file's
  keys and the universe, not the universe alone. At every batch boundary (after \<open>n\<close>
  passes and \<open>k\<close> batches) of the service of api\_utils.py: the keys are that union, each
  key has one entry, and the entry of a symbol is the signal returned by the fetch of the
  last batch that held it, or, before any such batch, the value from the file, or, without
  one, the placeholder. The cache covers exactly the universe when the file had no other
  key.
\<close>

theorem cache_keys_file_and_universe:
  assumes "distinct (map fst cache0)"
    and "service P provider fit_predict net cache0 n k = Inr st"
  shows "fst ` set (cache st) = fst ` set cache0 \<union> set (SYMBOLS (bootstrap provider))
       \<and> distinct (map fst (cache st))
       \<and> (\<forall>s. map_of (cache st) s =
              (case latest_from 0 (schedule (SYMBOLS (bootstrap provider)) 30 n k) s of
                 Some u \<Rightarrow> returned (fetch_kline P (details (bootstrap provider)) fit_predict (net u s) s)
               | None \<Rightarrow> (case map_of cache0 s of
                            Some w \<Rightarrow> Some w
                          | None \<Rightarrow> if s \<in> set (SYMBOLS (bootstrap provider))
                                    then Some Analyzing else None)))
       \<and> (fst ` set cache0 \<subseteq> set (SYMBOLS (bootstrap provider))
            \<longrightarrow> fst ` set (cache st) = set (SYMBOLS (bootstrap provider)))"
proof -
  let ?f = "\<lambda>t s. fetch_kline P (details (bootstrap provider)) fit_predict (net t s) s"
  have own: "\<forall>t s s' v. ?f t s = Inr (s', v) \<longrightarrow> s' = s"
    using fetch_kline_own by blast
  have run: "state_after ?f (SYMBOLS (bootstrap provider)) 30 60 cache0 n k = Inr st"
    using assms(2) by (simp add: service_def Let_def)
  have B: "0 < (30::nat)" by simp
  note r = state_after_cache [OF own B assms(1) run]
  show ?thesis using r by blast
qed

text \<open>
  A run with a stale key in the cache file: one contract in the universe, one pass, every
  request timing out.
\<close>

lemma stale_run:
  "service no_readers (\<lambda>_. DetailBody (Some [btc_contract])) (\<lambda>_. Inl ValueError)
      (\<lambda>t s. Failed TimeoutError) [(''OLD_USDT'', Long 90)] 1 0
   = Inr \<lparr>cache = [(''OLD_USDT'', Long 90), (''BTC_USDT'', RequestFailed)],
          events = [Persisted [(''OLD_USDT'', Long 90), (''BTC_USDT'', RequestFailed)],
                    Emitted [(''BTC_USDT'', RequestFailed)], Slept 60]\<rparr>"
  by (simp add: service_def state_after_def rotating_analysis_def bootstrap_def detail_get_def
      btc_contract_def analysis_pass_def py_range.simps py_slice_def run_batch_def
      fetch_kline_def try_frame_def merge_results_def prefill_def setdefault_def bind_err_def
      Let_def)

lemma stale_universe: "SYMBOLS (bootstrap (\<lambda>_. DetailBody (Some [btc_contract]))) = [''BTC_USDT'']"
  by (simp add: bootstrap_def detail_get_def btc_contract_def)

theorem cache_keys_file_and_universe_witness:
  "distinct (map fst [(''OLD_USDT'', Long 90)])
   \<and> (\<exists>st. service no_readers (\<lambda>_. DetailBody (Some [btc_contract])) (\<lambda>_. Inl ValueError)
             (\<lambda>t s. Failed TimeoutError) [(''OLD_USDT'', Long 90)] 1 0 = Inr st
         \<and> fst ` set (cache st) = {''OLD_USDT'', ''BTC_USDT''}
         \<and> distinct (map fst (cache st)))"
proof -
  have d: "distinct (map fst [(''OLD_USDT'', Long 90)])" by simp
  note inst = cache_keys_file_and_universe [OF d stale_run]
  have "fst ` set (cache \<lparr>cache = [(''OLD_USDT'', Long 90), (''BTC_USDT'', RequestFailed)],
          events = [Persisted [(''OLD_USDT'', Long 90), (''BTC_USDT'', RequestFailed)],
                    Emitted [(''BTC_USDT'', RequestFailed)], Slept 60]\<rparr>)
        = {''OLD_USDT'', ''BTC_USDT''}"
    using inst unfolding stale_universe by simp
  then show ?thesis using d stale_run inst by simp
qed

text \<open>
  Claim C4 as stated fails there: after the pass the cache holds the key of the file that
  is not a symbol of the universe.
\<close>

theorem stale_key_counterexample:
  "\<exists>st. service no_readers (\<lambda>_. DetailBody (Some [btc_contract])) (\<lambda>_. Inl ValueError)
          (\<lambda>t s. Failed TimeoutError) [(''OLD_USDT'', Long 90)] 1 0 = Inr st
      \<and> ''OLD_USDT'' \<in> fst ` set (cache st)
      \<and> ''OLD_USDT'' \<notin> set (SYMBOLS (bootstrap (\<lambda>_. DetailBody (Some [btc_contract]))))"
  using stale_run stale_universe by simp

section \<open>The universe loaders\<close>

lemma first_occurrences_snoc:
  "first_occurrences (xs @ [x]) =
     (if x \<in> set xs then first_occurrences xs else first_occurrences xs @ [x])"
  by (simp add: first_occurrences_def)

lemma set_first_occurrences: "set (first_occurrences xs) = set xs"
  by (simp add: first_occurrences_def)

lemma first_occurrences_distinct: "distinct xs \<Longrightarrow> first_occurrences xs = xs"
  by (simp add: first_occurrences_def distinct_remdups_id)

lemma load_items_ok:
  assumes "\<forall>item \<in> set items. quoteCoin item = Some ''USDT'' \<longrightarrow> symbol item \<noteq> None"
  shows "load_items items dm =
           (fold (\<lambda>item. AList.update (the (symbol item)) item) (usdt_quoted items) dm, None)"
  using assms by (induction items arbitrary: dm) (auto simp: usdt_quoted_def)

lemma load_items_missing:
  assumes "\<exists>item \<in> set items. quoteCoin item = Some ''USDT'' \<and> symbol item = None"
  shows "snd (load_items items dm) = Some KeyError"
  using assms by (induction items arbitrary: dm) (auto split: option.splits)

lemma keys_fold_update:
  "map fst (fold (\<lambda>item. AList.update (f item) item) xs []) = first_occurrences (map f xs)"
proof (induction xs rule: rev_induct)
  case Nil
  then show ?case by (simp add: first_occurrences_def)
next
  case (snoc x xs)
  have "set (map fst (fold (\<lambda>item. AList.update (f item) item) xs [])) = f ` set xs"
    using snoc by (simp add: set_first_occurrences)
  then have mem: "f x \<in> fst ` set (fold (\<lambda>item. AList.update (f item) item) xs []) \<longleftrightarrow> f x \<in> f ` set xs"
    by simp
  show ?case
    using snoc mem by (simp add: update_keys first_occurrences_snoc set_first_occurrences)
qed

lemma idle_passes:
  "0 < B \<Longrightarrow> passes fetch [] B d t n st = Inr st"
  by (induction n arbitrary: t) (simp_all add: analysis_pass_def py_range.simps)

lemma idle_service:
  "0 < B \<Longrightarrow> state_after fetch [] B d c0 n k = Inr \<lparr>cache = c0, events = []\<rparr>"
  by (simp add: state_after_def rotating_analysis_def idle_passes prefill_def bind_err_def
      py_range.simps)

lemma usdt_symbols_ok:
  assumes "\<forall>item \<in> set items. quoteCoin item = Some ''USDT'' \<longrightarrow> symbol item \<noteq> None"
  shows "usdt_symbols items = Inr (map (\<lambda>item. the (symbol item)) (usdt_quoted items))"
  using assms by (induction items) (auto simp: usdt_quoted_def bind_err_def)

lemma suffix_symbols_ok:
  assumes "\<forall>item \<in> set items. symbol item \<noteq> None"
  shows "suffix_symbols items =
     Inr (filter (\<lambda>s. endswith s ''_USDT'') (map (\<lambda>item. the (symbol item)) items))"
  using assms by (induction items) (auto simp: bind_err_def)

text \<open>
  Claim C5, as the code has it. The bootstrap of api\_utils.py calls the provider once. When
  the call succeeds (and every USDT-quoted item has a symbol), the universe is the symbols
  of the items whose \<^verbatim>\<open>quoteCoin\<close> is USDT, each at its first occurrence, which is the
  response order when the symbols are distinct. When the call fails, or a USDT-quoted item
  has no symbol, the universe is empty, an error is printed and the service runs on with
  nothing to analyze: no batch, no event, the cache as loaded. web.py keeps the same
  items in response order; test.py keeps the items whose symbol ends in \<^verbatim>\<open>_USDT\<close>.
\<close>

theorem universe_loaders:
  "detail_calls (bootstrap provider) = 1
   \<and> (provider 0 = DetailBody body
        \<and> (\<forall>item \<in> set (case body of None \<Rightarrow> [] | Some xs \<Rightarrow> xs).
              quoteCoin item = Some ''USDT'' \<longrightarrow> symbol item \<noteq> None)
      \<longrightarrow> SYMBOLS (bootstrap provider) =
            first_occurrences (map (\<lambda>item. the (symbol item))
              (usdt_quoted (case body of None \<Rightarrow> [] | Some xs \<Rightarrow> xs)))
          \<and> set (SYMBOLS (bootstrap provider)) =
              {s. \<exists>item \<in> set (case body of None \<Rightarrow> [] | Some xs \<Rightarrow> xs).
                     quoteCoin item = Some ''USDT'' \<and> symbol item = Some s}
          \<and> (distinct (map (\<lambda>item. the (symbol item))
                 (usdt_quoted (case body of None \<Rightarrow> [] | Some xs \<Rightarrow> xs)))
              \<longrightarrow> SYMBOLS (bootstrap provider) =
                    map (\<lambda>item. the (symbol item))
                      (usdt_quoted (case body of None \<Rightarrow> [] | Some xs \<Rightarrow> xs)))
          \<and> printed (bootstrap provider) = None)
   \<and> (provider 0 = DetailFailed e
        \<or> (provider 0 = DetailBody (Some items)
            \<and> (\<exists>item \<in> set items. quoteCoin item = Some ''USDT'' \<and> symbol item = None))
      \<longrightarrow> SYMBOLS (bootstrap provider) = []
          \<and> printed (bootstrap provider) \<noteq> None
          \<and> service P provider fit_predict net cache0 n k = Inr \<lparr>cache = cache0, events = []\<rparr>)
   \<and> (provider 0 = DetailBody (Some items)
        \<and> (\<forall>item \<in> set items. quoteCoin item = Some ''USDT'' \<longrightarrow> symbol item \<noteq> None)
      \<longrightarrow> load_symbols_web provider =
            (Inr (map (\<lambda>item. the (symbol item)) (usdt_quoted items)), 1))
   \<and> (provider 0 = DetailBody (Some items) \<and> (\<forall>item \<in> set items. symbol item \<noteq> None)
      \<longrightarrow> fetch_symbols provider =
            (Inr (filter (\<lambda>s. endswith s ''_USDT'') (map (\<lambda>item. the (symbol item)) items)), 1))"
proof (intro conjI impI)
  show "detail_calls (bootstrap provider) = 1"
    by (simp add: bootstrap_def detail_get_def Let_def split: detail_outcome.splits prod.splits option.splits)
next
  let ?items = "case body of None \<Rightarrow> [] | Some xs \<Rightarrow> xs"
  assume a: "provider 0 = DetailBody body \<and>
    (\<forall>item \<in> set ?items. quoteCoin item = Some ''USDT'' \<longrightarrow> symbol item \<noteq> None)"
  then have l: "load_items ?items [] =
      (fold (\<lambda>item. AList.update (the (symbol item)) item) (usdt_quoted ?items) [], None)"
    using load_items_ok by blast
  show s: "SYMBOLS (bootstrap provider) =
      first_occurrences (map (\<lambda>item. the (symbol item)) (usdt_quoted ?items))"
    using a l by (simp add: bootstrap_def detail_get_def keys_fold_update)
  show "printed (bootstrap provider) = None"
    using a l by (simp add: bootstrap_def detail_get_def)
  show "set (SYMBOLS (bootstrap provider)) =
      {s. \<exists>item \<in> set ?items. quoteCoin item = Some ''USDT'' \<and> symbol item = Some s}"
    using a unfolding s set_first_occurrences by (force simp: usdt_quoted_def)
  assume "distinct (map (\<lambda>item. the (symbol item)) (usdt_quoted ?items))"
  then show "SYMBOLS (bootstrap provider) = map (\<lambda>item. the (symbol item)) (usdt_quoted ?items)"
    unfolding s by (rule first_occurrences_distinct)
next
  assume f: "provider 0 = DetailFailed e
        \<or> (provider 0 = DetailBody (Some items)
            \<and> (\<exists>item \<in> set items. quoteCoin item = Some ''USDT'' \<and> symbol item = None))"
  have k: "\<exists>dm. load_items items [] = (dm, Some KeyError)"
    if "\<exists>item \<in> set items. quoteCoin item = Some ''USDT'' \<and> symbol item = None"
    using load_items_missing [OF that, of "[]"] by (cases "load_items items []") simp
  have both: "SYMBOLS (bootstrap provider) = [] \<and> printed (bootstrap provider) \<noteq> None"
    using f
  proof (elim disjE conjE)
    assume "provider 0 = DetailFailed e"
    then show ?thesis by (simp add: bootstrap_def detail_get_def)
  next
    assume p: "provider 0 = DetailBody (Some items)"
      and "\<exists>item \<in> set items. quoteCoin item = Some ''USDT'' \<and> symbol item = None"
    then obtain dm where "load_items items [] = (dm, Some KeyError)" using k by blast
    with p show ?thesis by (simp add: bootstrap_def detail_get_def)
  qed
  then show e: "SYMBOLS (bootstrap provider) = []" and "printed (bootstrap provider) \<noteq> None"
    by simp_all
  show "service P provider fit_predict net cache0 n k = Inr \<lparr>cache = cache0, events = []\<rparr>"
    by (simp add: service_def Let_def e idle_service)
next
  assume "provider 0 = DetailBody (Some items)
        \<and> (\<forall>item \<in> set items. quoteCoin item = Some ''USDT'' \<longrightarrow> symbol item \<noteq> None)"
  then show "load_symbols_web provider =
            (Inr (map (\<lambda>item. the (symbol item)) (usdt_quoted items)), 1)"
    by (simp add: load_symbols_web_def detail_get_def usdt_symbols_ok)
next
  assume "provider 0 = DetailBody (Some items) \<and> (\<forall>item \<in> set items. symbol item \<noteq> None)"
  then show "fetch_symbols provider =
            (Inr (filter (\<lambda>s. endswith s ''_USDT'') (map (\<lambda>item. the (symbol item)) items)), 1)"
    by (simp add: fetch_symbols_def detail_get_def suffix_symbols_ok)
qed


text \<open>
  The loaders on a response with a USDT contract, a USDC contract and a USDT contract whose
  symbol has no underscore, and the bootstrap on a failed request.
\<close>

lemma sample_quotes:
  "usdt_quoted [btc_contract, eth_contract, sol_contract] = [btc_contract, sol_contract]"
  by (simp add: usdt_quoted_def btc_contract_def eth_contract_def sol_contract_def)

theorem universe_loaders_witness:
  "detail_calls (bootstrap (\<lambda>_. DetailBody (Some [btc_contract, eth_contract, sol_contract]))) = 1
   \<and> SYMBOLS (bootstrap (\<lambda>_. DetailBody (Some [btc_contract, eth_contract, sol_contract])))
       = [''BTC_USDT'', ''SOLUSDT'']
   \<and> load_symbols_web (\<lambda>_. DetailBody (Some [btc_contract, eth_contract, sol_contract]))
       = (Inr [''BTC_USDT'', ''SOLUSDT''], 1)
   \<and> fetch_symbols (\<lambda>_. DetailBody (Some [btc_contract, eth_contract, sol_contract]))
       = (Inr [''BTC_USDT''], 1)
   \<and> SYMBOLS (bootstrap (\<lambda>_. DetailFailed ClientError)) = []
   \<and> service no_readers (\<lambda>_. DetailFailed ClientError) (\<lambda>_. Inl ValueError)
        (\<lambda>t s. Failed TimeoutError) [] 3 1 = Inr \<lparr>cache = [], events = []\<rparr>"
proof -
  note ok = universe_loaders [of "\<lambda>_. DetailBody (Some [btc_contract, eth_contract, sol_contract])"
      "Some [btc_contract, eth_contract, sol_contract]" ClientError
      "[btc_contract, eth_contract, sol_contract]"]
  note ko = universe_loaders [of "\<lambda>_. DetailFailed ClientError" None ClientError "[]"
      no_readers "\<lambda>_. Inl ValueError" "\<lambda>t s. Failed TimeoutError" "[]" 3 1]
  have syms: "\<forall>item \<in> set [btc_contract, eth_contract, sol_contract]. symbol item \<noteq> None"
    by (simp add: btc_contract_def eth_contract_def sol_contract_def)
  have names: "symbol btc_contract = Some ''BTC_USDT''" "symbol eth_contract = Some ''ETH_USDC''"
      "symbol sol_contract = Some ''SOLUSDT''"
    by (simp_all add: btc_contract_def eth_contract_def sol_contract_def)
  have a: "detail_calls (bootstrap (\<lambda>_. DetailBody (Some [btc_contract, eth_contract, sol_contract]))) = 1"
    using ok by blast
  have b: "SYMBOLS (bootstrap (\<lambda>_. DetailBody (Some [btc_contract, eth_contract, sol_contract])))
       = [''BTC_USDT'', ''SOLUSDT'']"
    using ok syms by (simp add: sample_quotes names first_occurrences_def)
  have c: "load_symbols_web (\<lambda>_. DetailBody (Some [btc_contract, eth_contract, sol_contract]))
       = (Inr [''BTC_USDT'', ''SOLUSDT''], 1)"
    using ok syms by (simp add: sample_quotes names)
  have d: "fetch_symbols (\<lambda>_. DetailBody (Some [btc_contract, eth_contract, sol_contract]))
       = (Inr [''BTC_USDT''], 1)"
    using ok syms by (simp add: names endswith_def)
  have e: "SYMBOLS (bootstrap (\<lambda>_. DetailFailed ClientError)) = []"
      "service no_readers (\<lambda>_. DetailFailed ClientError) (\<lambda>_. Inl ValueError)
        (\<lambda>t s. Failed TimeoutError) [] 3 1 = Inr \<lparr>cache = [], events = []\<rparr>"
    using ko by simp_all
  show ?thesis using a b c d e by simp
qed

text \<open>
  Claim C5 as stated fails on test.py: a contract quoted in USDT whose symbol does not end
  in \<^verbatim>\<open>_USDT\<close> is dropped by \<^verbatim>\<open>fetch_symbols\<close> (and kept by the bootstrap of
  api\_utils.py).
\<close>

theorem suffix_filter_counterexample:
  "quoteCoin sol_contract = Some ''USDT''
   \<and> fetch_symbols (\<lambda>_. DetailBody (Some [sol_contract])) = (Inr [], 1)
   \<and> SYMBOLS (bootstrap (\<lambda>_. DetailBody (Some [sol_contract]))) = [''SOLUSDT'']"
  by (simp add: sol_contract_def fetch_symbols_def detail_get_def endswith_def bootstrap_def)


section \<open>The k-line fetch\<close>

lemma decode_row_Inr:
  assumes "decode_row P (JArr xs) = Inr b"
  shows "6 \<le> length xs \<and> \<not> isl (py_int P (xs ! 0)) \<and> (\<forall>i \<in> {1, 2, 3, 4, 5}. \<not> isl (py_float P (xs ! i)))"
  using assms
  by (auto simp: decode_row_def bind_err_def split: sum.splits if_splits)

lemma malformed_raises: "malformed P k \<Longrightarrow> \<exists>e. decode_row P k = Inl e"
proof -
  assume m: "malformed P k"
  then obtain xs where k: "k = JArr xs" by (auto simp: malformed_def split: json.splits)
  show ?thesis
  proof (cases "decode_row P k")
    case (Inl e)
    then show ?thesis by blast
  next
    case (Inr b)
    then show ?thesis using m decode_row_Inr [of P xs b] unfolding k malformed_def by auto
  qed
qed

lemma decode_rows_raises:
  "k \<in> set ks \<Longrightarrow> decode_row P k = Inl e \<Longrightarrow> \<exists>e'. decode_rows P ks = Inl e'"
  by (induction ks) (auto simp: bind_err_def split: sum.splits)

lemma iter_truthy: "py_iter rows = Inr ks \<Longrightarrow> ks \<noteq> [] \<Longrightarrow> truthy rows"
  by (cases rows) auto

lemma try_frame_malformed:
  assumes "map_of kvs ''data'' = Some rows" and "py_iter rows = Inr ks"
    and "k \<in> set ks" and "malformed P k"
  shows "\<exists>e. try_frame P (Body (JObj kvs)) = Inl e"
    and "\<exists>e. try_frame_web P (Body (JObj kvs)) = Inl e"
proof -
  from assms(3,4) obtain e where e: "decode_rows P ks = Inl e"
    using malformed_raises decode_rows_raises by blast
  have t: "truthy rows" using assms(2,3) iter_truthy by fastforce
  show "\<exists>e. try_frame P (Body (JObj kvs)) = Inl e"
    using assms(1,2) e t by (simp add: try_frame_def bind_err_def)
  show "\<exists>e. try_frame_web P (Body (JObj kvs)) = Inl e"
    using assms(1,2) e by (simp add: try_frame_web_def bind_err_def)
qed

text \<open>
  Claim C10. When the \<^verbatim>\<open>data\<close> of the payload holds a malformed row, the exception of the
  decoding is raised inside the \<^verbatim>\<open>try\<close> block of \<^verbatim>\<open>fetch_kline\<close> (api\_utils.py and
  web.py), the block whose handler also takes the transport and timeout errors; the symbol
  gets the request-failed tag, the very result of a failed request.
\<close>

theorem malformed_rows_request_failed:
  assumes "map_of kvs ''data'' = Some rows" and "py_iter rows = Inr ks"
    and "k \<in> set ks" and "malformed P k"
  shows "(\<exists>e. try_frame P (Body (JObj kvs)) = Inl e)
       \<and> (\<exists>e. try_frame_web P (Body (JObj kvs)) = Inl e)
       \<and> fetch_kline P dm fit_predict (Body (JObj kvs)) s = Inr (s, RequestFailed)
       \<and> fetch_kline_web P fit_predict (Body (JObj kvs)) s = Inr (s, RequestFailed)
       \<and> fetch_kline P dm fit_predict (Body (JObj kvs)) s = fetch_kline P dm fit_predict (Failed e) s
       \<and> fetch_kline_web P fit_predict (Body (JObj kvs)) s = fetch_kline_web P fit_predict (Failed e) s"
proof -
  from try_frame_malformed [OF assms] obtain e1 e2 where
    a: "try_frame P (Body (JObj kvs)) = Inl e1" and w: "try_frame_web P (Body (JObj kvs)) = Inl e2"
    by blast
  have "try_frame P (Failed e) = Inl e" "try_frame_web P (Failed e) = Inl e"
    by (simp_all add: try_frame_def try_frame_web_def)
  then show ?thesis using a w by (simp add: fetch_kline_def fetch_kline_web_def)
qed

text \<open>A row of two elements, and a row whose low price is the string \<^verbatim>\<open>n/a\<close>.\<close>

theorem malformed_rows_request_failed_witness:
  "malformed no_readers (JArr [JNum 1700000000000, JNum 1])
   \<and> malformed no_readers (JArr [JNum 1700000000000, JNum 1, JNum 2, JStr ''n/a'', JNum 1, JNum 3])
   \<and> fetch_kline no_readers [] (\<lambda>_. Inr (1 / 2))
        (Body (JObj [(''data'', JArr [flat_row, JArr [JNum 1700000000000, JNum 1]])])) ''BTC_USDT''
       = Inr (''BTC_USDT'', RequestFailed)
   \<and> fetch_kline_web no_readers (\<lambda>_. Inr (1 / 2))
        (Body (JObj [(''data'',
           JArr [JArr [JNum 1700000000000, JNum 1, JNum 2, JStr ''n/a'', JNum 1, JNum 3]])]))
        ''BTC_USDT''
       = Inr (''BTC_USDT'', RequestFailed)"
proof -
  have m1: "malformed no_readers (JArr [JNum 1700000000000, JNum 1])"
    by (simp add: malformed_def)
  have m2: "malformed no_readers (JArr [JNum 1700000000000, JNum 1, JNum 2, JStr ''n/a'', JNum 1, JNum 3])"
    by (simp add: malformed_def no_readers_def)
  note a = malformed_rows_request_failed [of "[(''data'', JArr [flat_row, JArr [JNum 1700000000000, JNum 1]])]"
      "JArr [flat_row, JArr [JNum 1700000000000, JNum 1]]" "[flat_row, JArr [JNum 1700000000000, JNum 1]]"
      "JArr [JNum 1700000000000, JNum 1]" no_readers "[]" "\<lambda>_. Inr (1 / 2)" "''BTC_USDT''", OF _ _ _ m1]
  note b = malformed_rows_request_failed [of
      "[(''data'', JArr [JArr [JNum 1700000000000, JNum 1, JNum 2, JStr ''n/a'', JNum 1, JNum 3]])]"
      "JArr [JArr [JNum 1700000000000, JNum 1, JNum 2, JStr ''n/a'', JNum 1, JNum 3]]"
      "[JArr [JNum 1700000000000, JNum 1, JNum 2, JStr ''n/a'', JNum 1, JNum 3]]"
      "JArr [JNum 1700000000000, JNum 1, JNum 2, JStr ''n/a'', JNum 1, JNum 3]" no_readers "[]"
      "\<lambda>_. Inr (1 / 2)" "''BTC_USDT''", OF _ _ _ m2]
  show ?thesis using m1 m2 a b by simp
qed

lemma decode_flat_row: "decode_row P flat_row = Inr flat_bar"
  by (simp add: decode_row_def flat_row_def flat_bar_def bind_err_def)

lemma decode_rows_replicate:
  "decode_row P k = Inr b \<Longrightarrow> decode_rows P (replicate n k) = Inr (replicate n b)"
  by (induction n) (simp_all add: bind_err_def)

lemma flat_frame:
  "try_frame P (Body (JObj [(''data'', JArr (replicate 25 flat_row))])) = Inr (Some (replicate 25 flat_bar))"
  "try_frame_web P (Body (JObj [(''data'', JArr (replicate 25 flat_row))])) = Inr (Some (replicate 25 flat_bar))"
  by (simp_all add: try_frame_def try_frame_web_def bind_err_def decode_rows_replicate [OF decode_flat_row])

text \<open>
  Claim C3 on the code. A payload of 25 well-formed bars with one price throughout, and a
  fit that raises ValueError (the classifier refuses a target with one class). In
  api\_utils.py nothing catches it: \<^verbatim>\<open>fetch_kline\<close> raises, and the service that has this
  symbol in its first batch ends with the exception, the sibling's result never merged.
  web.py returns the analysis-failed tag.
\<close>

theorem scoring_failure_escapes:
  "fetch_kline no_readers [] (\<lambda>_. Inl ValueError)
      (Body (JObj [(''data'', JArr (replicate 25 flat_row))])) ''BTC_USDT'' = Inl ValueError
   \<and> fetch_kline_web no_readers (\<lambda>_. Inl ValueError)
      (Body (JObj [(''data'', JArr (replicate 25 flat_row))])) ''BTC_USDT''
       = Inr (''BTC_USDT'', AnalysisFailed)
   \<and> service no_readers (\<lambda>_. DetailBody (Some [btc_contract, sol_contract])) (\<lambda>_. Inl ValueError)
        (\<lambda>t s. if s = ''BTC_USDT'' then Body (JObj [(''data'', JArr (replicate 25 flat_row))])
                else Failed TimeoutError) [] 1 0 = Inl ValueError"
proof -
  have u: "bootstrap (\<lambda>_. DetailBody (Some [btc_contract, sol_contract]))
      = \<lparr>details = [(''BTC_USDT'', btc_contract), (''SOLUSDT'', sol_contract)],
         SYMBOLS = [''BTC_USDT'', ''SOLUSDT''], printed = None, detail_calls = 1\<rparr>"
    by (simp add: bootstrap_def detail_get_def btc_contract_def sol_contract_def)
  have f: "\<And>dm. fetch_kline no_readers dm (\<lambda>_. Inl ValueError)
      (Body (JObj [(''data'', JArr (replicate 25 flat_row))])) ''BTC_USDT'' = Inl ValueError"
    by (simp add: fetch_kline_def flat_frame)
  have w: "fetch_kline_web no_readers (\<lambda>_. Inl ValueError)
      (Body (JObj [(''data'', JArr (replicate 25 flat_row))])) ''BTC_USDT''
       = Inr (''BTC_USDT'', AnalysisFailed)"
    by (simp add: fetch_kline_web_def flat_frame)
  have "service no_readers (\<lambda>_. DetailBody (Some [btc_contract, sol_contract])) (\<lambda>_. Inl ValueError)
        (\<lambda>t s. if s = ''BTC_USDT'' then Body (JObj [(''data'', JArr (replicate 25 flat_row))])
                else Failed TimeoutError) [] 1 0 = Inl ValueError"
    by (simp add: service_def u state_after_def rotating_analysis_def analysis_pass_def
        py_range.simps py_slice_def run_batch_def f bind_err_def)
  then show ?thesis using f w by simp
qed


lemmas b64 = binary64_def ulp_def exponent_def expo_ge.simps expo_lt.simps Let_def round_half_even_def
  power_int_minus

text \<open>The format \<^verbatim>\<open>:.1f\<close> prints the number with one decimal that is nearest.\<close>

lemma round_half_even_near: "\<bar>of_int (round_half_even y) - y\<bar> \<le> 1 / 2"
proof -
  have "of_int \<lfloor>y\<rfloor> \<le> y" "y < of_int \<lfloor>y\<rfloor> + 1" by linarith+
  then show ?thesis by (auto simp: round_half_even_def Let_def)
qed

lemma format1_nearest: "\<bar>format1 x - x\<bar> \<le> 1 / 20 \<and> (\<exists>n::int. format1 x = of_int n / 10)"
proof -
  have "\<bar>of_int (round_half_even (x * 10)) - x * 10\<bar> \<le> 1 / 2"
    by (rule round_half_even_near)
  then have "\<bar>of_int (round_half_even (x * 10)) / 10 - x\<bar> \<le> 1 / 20"
    by (simp add: field_simps abs_le_iff)
  then show ?thesis by (auto simp: format1_def)
qed

text \<open>
  Claim C6, as the code has it. With a frame of at least 25 bars and the probability
  \<open>prob\<close> of the fit, \<^verbatim>\<open>fetch_kline\<close> of api\_utils.py scores
  \<open>adjusted = prob * (1 - (m + i))\<close> in the arithmetic of doubles, each of the three
  operations rounded, where the rates \<open>m\<close>, \<open>i\<close> are those of the first entry of
  \<^verbatim>\<open>riskLimitCustom\<close> when the list is there and not empty, the contract's own otherwise,
  and 0 for a field or a contract that is absent. The signal is Long when \<open>adjusted\<close> is
  greater than the double \<^verbatim>\<open>0.85\<close>, Short when it is less than the double \<^verbatim>\<open>0.15\<close>, the
  not-recommended tag otherwise. The number in the string is the percentage
  \<open>adjusted * 100\<close>, for Short \<open>(1 - adjusted) * 100\<close>, computed in doubles and printed with
  one decimal: a multiple of a tenth at most 0.05 away from the percentage. web.py has
  no metadata and does the same with \<open>prob\<close>.
\<close>

theorem risk_adjusted_thresholds:
  assumes "try_frame P resp = Inr (Some df)" and "25 \<le> length df"
    and "fit_predict df = Inr prob"
    and "margin_rates dm s = (m, i)"
    and "rd = rounding P"
    and "adjusted = rd (prob * rd (1 - rd (m + i)))"
  shows "(\<forall>d tier rest. map_of dm s = Some d \<and> riskLimitCustom d = Some (tier # rest)
            \<longrightarrow> m = get0 (mmr tier) \<and> i = get0 (imr tier))
       \<and> (\<forall>d. map_of dm s = Some d \<and> (riskLimitCustom d = None \<or> riskLimitCustom d = Some [])
            \<longrightarrow> m = get0 (maintenanceMarginRate d) \<and> i = get0 (initialMarginRate d))
       \<and> (map_of dm s = None \<longrightarrow> m = 0 \<and> i = 0)
       \<and> (adjusted > rd (85 / 100) \<longrightarrow>
            fetch_kline P dm fit_predict resp s = Inr (s, Long (format1 (rd (adjusted * 100)))))
       \<and> (adjusted \<le> rd (85 / 100) \<and> adjusted < rd (15 / 100) \<longrightarrow>
            fetch_kline P dm fit_predict resp s =
              Inr (s, Short (format1 (rd (rd (1 - adjusted) * 100)))))
       \<and> (adjusted \<le> rd (85 / 100) \<and> rd (15 / 100) \<le> adjusted \<longrightarrow>
            fetch_kline P dm fit_predict resp s =
              Inr (s, NotRecommended (format1 (rd (adjusted * 100)))))
       \<and> (try_frame_web P resp = Inr (Some df) \<longrightarrow>
            fetch_kline_web P fit_predict resp s =
              Inr (s, if prob > rd (85 / 100) then Long (format1 (rd (prob * 100)))
                      else if prob < rd (15 / 100) then Short (format1 (rd (rd (1 - prob) * 100)))
                      else NotRecommended (format1 (rd (prob * 100)))))
       \<and> (\<forall>x. \<bar>format1 x - x\<bar> \<le> 1 / 20 \<and> (\<exists>n::int. format1 x = of_int n / 10))"
proof -
  have "(\<forall>d tier rest. map_of dm s = Some d \<and> riskLimitCustom d = Some (tier # rest)
            \<longrightarrow> m = get0 (mmr tier) \<and> i = get0 (imr tier))
       \<and> (\<forall>d. map_of dm s = Some d \<and> (riskLimitCustom d = None \<or> riskLimitCustom d = Some [])
            \<longrightarrow> m = get0 (maintenanceMarginRate d) \<and> i = get0 (initialMarginRate d))
       \<and> (map_of dm s = None \<longrightarrow> m = 0 \<and> i = 0)
       \<and> (adjusted > rd (85 / 100) \<longrightarrow>
            fetch_kline P dm fit_predict resp s = Inr (s, Long (format1 (rd (adjusted * 100)))))
       \<and> (adjusted \<le> rd (85 / 100) \<and> adjusted < rd (15 / 100) \<longrightarrow>
            fetch_kline P dm fit_predict resp s =
              Inr (s, Short (format1 (rd (rd (1 - adjusted) * 100)))))
       \<and> (adjusted \<le> rd (85 / 100) \<and> rd (15 / 100) \<le> adjusted \<longrightarrow>
            fetch_kline P dm fit_predict resp s =
              Inr (s, NotRecommended (format1 (rd (adjusted * 100)))))
       \<and> (try_frame_web P resp = Inr (Some df) \<longrightarrow>
            fetch_kline_web P fit_predict resp s =
              Inr (s, if prob > rd (85 / 100) then Long (format1 (rd (prob * 100)))
                      else if prob < rd (15 / 100) then Short (format1 (rd (rd (1 - prob) * 100)))
                      else NotRecommended (format1 (rd (prob * 100)))))"
    using assms
    by (auto simp: fetch_kline_def fetch_kline_web_def risk_signal_def threshold_signal_def
        margin_rates_def split: option.splits list.splits)
  moreover have "\<forall>x. \<bar>format1 x - x\<bar> \<le> 1 / 20 \<and> (\<exists>n::int. format1 x = of_int n / 10)"
    using format1_nearest by blast
  ultimately show ?thesis by (simp only: simp_thms)
qed

lemma sample_rates:
  "margin_rates [(''BTC_USDT'', tier_contract), (''SOLUSDT'', plain_contract)] ''BTC_USDT''
     = (binary64 (4 / 1000), binary64 (1 / 100))"
  "margin_rates [(''BTC_USDT'', tier_contract), (''SOLUSDT'', plain_contract)] ''SOLUSDT''
     = (binary64 (5 / 1000), binary64 (2 / 100))"
  "margin_rates [(''BTC_USDT'', tier_contract), (''SOLUSDT'', plain_contract)] ''XRP_USDT''
     = (0, 0)"
  by (simp_all add: margin_rates_def tier_contract_def plain_contract_def get0_def)

lemma double_rates:
  "binary64 (4 / 1000) = 1152921504606847 / 2 ^ 58"
  "binary64 (1 / 100) = 5764607523034235 / 2 ^ 59"
  "binary64 (5 / 1000) = 5764607523034235 / 2 ^ 60"
  "binary64 (2 / 100) = 5764607523034235 / 2 ^ 58"
  "binary64 (85 / 100) = 7656119366529843 / 2 ^ 53"
  "binary64 (15 / 100) = 5404319552844595 / 2 ^ 55"
  by (simp_all add: b64)


lemma rounding_no_readers: "binary64 = rounding no_readers"
  by (simp add: no_readers_def)

text \<open>The scores of the samples, in doubles.\<close>

lemma score_a:
  "binary64 (binary64 (86 / 100) * binary64 (1 - binary64 (binary64 (4 / 1000) + binary64 (1 / 100)))) = 7637744680050171 / 2 ^ 53"
  by (simp add: b64)

lemma score_b:
  "binary64 (1963107529879447 / 2 ^ 51 * binary64 (1 - binary64 (binary64 (5 / 1000) + binary64 (2 / 100)))) = 7656119366529843 / 2 ^ 53"
  by (simp add: b64)

lemma score_c:
  "binary64 (binary64 (9 / 10) * binary64 (1 - binary64 (binary64 (5 / 1000) + binary64 (2 / 100)))) = 1975954336508805 / 2 ^ 51"
  by (simp add: b64)

lemma score_d:
  "binary64 (binary64 (1 / 10) * binary64 (1 - binary64 (0 + 0))) = 3602879701896397 / 2 ^ 55"
  by (simp add: b64)

lemma score_e:
  "binary64 (5404319552844595 / 2 ^ 55 * binary64 (1 - binary64 (0 + 0))) = 5404319552844595 / 2 ^ 55"
  by (simp add: b64)

lemma sample_printed:
  "format1 (binary64 (7637744680050171 / 2 ^ 53 * 100)) = 848 / 10"
  "format1 (binary64 (7656119366529843 / 2 ^ 53 * 100)) = 85"
  "format1 (binary64 (1975954336508805 / 2 ^ 51 * 100)) = 878 / 10"
  "format1 (binary64 (binary64 (1 - 3602879701896397 / 2 ^ 55) * 100)) = 90"
  "format1 (binary64 (5404319552844595 / 2 ^ 55 * 100)) = 15"
  "format1 (binary64 (binary64 (86 / 100) * 100)) = 86"
  by (simp_all add: b64 format1_def)

lemma web_score: "binary64 (86 / 100) > binary64 (85 / 100)"
  by (simp add: b64)

text \<open>
  Samples in doubles. The first tier's rates 0.004 and 0.01 turn a probability of 0.86
  into a score below 0.85, printed as 84.8 percent, not recommended; with the contract's
  own rates 0.005 and 0.02 (empty tier list) the probability 0.8717948717948718 gives
  the double 0.85 itself, which is not greater than 0.85: not recommended, 85.0 percent,
  and 0.9 gives a Long of 87.8 percent; without metadata 0.1 is a Short of 90.0 percent
  and the double 0.15 is not less than 0.15: not recommended, 15.0 percent. web.py
  publishes a Long of 86.0 percent for 0.86.
\<close>

theorem risk_adjusted_thresholds_witness:
  "fetch_kline no_readers [(''BTC_USDT'', tier_contract), (''SOLUSDT'', plain_contract)]
      (\<lambda>_. Inr (binary64 (86 / 100))) (Body (JObj [(''data'', JArr (replicate 25 flat_row))])) ''BTC_USDT''
     = Inr (''BTC_USDT'', NotRecommended (848 / 10))
   \<and> fetch_kline no_readers [(''BTC_USDT'', tier_contract), (''SOLUSDT'', plain_contract)]
      (\<lambda>_. Inr (1963107529879447 / 2 ^ 51)) (Body (JObj [(''data'', JArr (replicate 25 flat_row))])) ''SOLUSDT''
     = Inr (''SOLUSDT'', NotRecommended 85)
   \<and> fetch_kline no_readers [(''BTC_USDT'', tier_contract), (''SOLUSDT'', plain_contract)]
      (\<lambda>_. Inr (binary64 (9 / 10))) (Body (JObj [(''data'', JArr (replicate 25 flat_row))])) ''SOLUSDT''
     = Inr (''SOLUSDT'', Long (878 / 10))
   \<and> fetch_kline no_readers [(''BTC_USDT'', tier_contract), (''SOLUSDT'', plain_contract)]
      (\<lambda>_. Inr (binary64 (1 / 10))) (Body (JObj [(''data'', JArr (replicate 25 flat_row))])) ''XRP_USDT''
     = Inr (''XRP_USDT'', Short 90)
   \<and> fetch_kline no_readers [(''BTC_USDT'', tier_contract), (''SOLUSDT'', plain_contract)]
      (\<lambda>_. Inr (5404319552844595 / 2 ^ 55)) (Body (JObj [(''data'', JArr (replicate 25 flat_row))])) ''XRP_USDT''
     = Inr (''XRP_USDT'', NotRecommended 15)
   \<and> fetch_kline_web no_readers (\<lambda>_. Inr (binary64 (86 / 100)))
      (Body (JObj [(''data'', JArr (replicate 25 flat_row))])) ''BTC_USDT''
     = Inr (''BTC_USDT'', Long 86)"
proof -
  have len: "25 \<le> length (replicate 25 flat_bar)" by simp
  note a = risk_adjusted_thresholds [where fit_predict = "\<lambda>_. Inr (binary64 (86 / 100))"
      and P = no_readers, OF flat_frame(1) len refl sample_rates(1) rounding_no_readers refl,
      unfolded score_a double_rates(5,6)]
  have ca: "7637744680050171 / 2 ^ 53 \<le> (7656119366529843 / 2 ^ 53 :: real) \<and> (5404319552844595 / 2 ^ 55 :: real) \<le> 7637744680050171 / 2 ^ 53" by simp
  have ra: "fetch_kline no_readers [(''BTC_USDT'', tier_contract), (''SOLUSDT'', plain_contract)]
      (\<lambda>_. Inr (binary64 (86 / 100))) (Body (JObj [(''data'', JArr (replicate 25 flat_row))])) ''BTC_USDT''
     = Inr (''BTC_USDT'', NotRecommended (848 / 10))"
    using a [THEN conjunct2, THEN conjunct2, THEN conjunct2, THEN conjunct2, THEN conjunct2, THEN conjunct1, THEN mp, OF ca] by (simp only: sample_printed)
  note b = risk_adjusted_thresholds [where fit_predict = "\<lambda>_. Inr (1963107529879447 / 2 ^ 51)"
      and P = no_readers, OF flat_frame(1) len refl sample_rates(2) rounding_no_readers refl,
      unfolded score_b double_rates(5,6)]
  have cb: "7656119366529843 / 2 ^ 53 \<le> (7656119366529843 / 2 ^ 53 :: real) \<and> (5404319552844595 / 2 ^ 55 :: real) \<le> 7656119366529843 / 2 ^ 53" by simp
  have rb: "fetch_kline no_readers [(''BTC_USDT'', tier_contract), (''SOLUSDT'', plain_contract)]
      (\<lambda>_. Inr (1963107529879447 / 2 ^ 51)) (Body (JObj [(''data'', JArr (replicate 25 flat_row))])) ''SOLUSDT''
     = Inr (''SOLUSDT'', NotRecommended 85)"
    using b [THEN conjunct2, THEN conjunct2, THEN conjunct2, THEN conjunct2, THEN conjunct2, THEN conjunct1, THEN mp, OF cb] by (simp only: sample_printed)
  note c = risk_adjusted_thresholds [where fit_predict = "\<lambda>_. Inr (binary64 (9 / 10))"
      and P = no_readers, OF flat_frame(1) len refl sample_rates(2) rounding_no_readers refl,
      unfolded score_c double_rates(5,6)]
  have cc: "1975954336508805 / 2 ^ 51 > (7656119366529843 / 2 ^ 53 :: real)" by simp
  have rc: "fetch_kline no_readers [(''BTC_USDT'', tier_contract), (''SOLUSDT'', plain_contract)]
      (\<lambda>_. Inr (binary64 (9 / 10))) (Body (JObj [(''data'', JArr (replicate 25 flat_row))])) ''SOLUSDT''
     = Inr (''SOLUSDT'', Long (878 / 10))"
    using c [THEN conjunct2, THEN conjunct2, THEN conjunct2, THEN conjunct1, THEN mp, OF cc] by (simp only: sample_printed)
  note d = risk_adjusted_thresholds [where fit_predict = "\<lambda>_. Inr (binary64 (1 / 10))"
      and P = no_readers, OF flat_frame(1) len refl sample_rates(3) rounding_no_readers refl,
      unfolded score_d double_rates(5,6)]
  have cd: "3602879701896397 / 2 ^ 55 \<le> (7656119366529843 / 2 ^ 53 :: real) \<and> 3602879701896397 / 2 ^ 55 < (5404319552844595 / 2 ^ 55 :: real)" by simp
  have rd: "fetch_kline no_readers [(''BTC_USDT'', tier_contract), (''SOLUSDT'', plain_contract)]
      (\<lambda>_. Inr (binary64 (1 / 10))) (Body (JObj [(''data'', JArr (replicate 25 flat_row))])) ''XRP_USDT''
     = Inr (''XRP_USDT'', Short 90)"
    using d [THEN conjunct2, THEN conjunct2, THEN conjunct2, THEN conjunct2, THEN conjunct1, THEN mp, OF cd] by (simp only: sample_printed)
  note e = risk_adjusted_thresholds [where fit_predict = "\<lambda>_. Inr (binary64 (15 / 100))"
      and P = no_readers, OF flat_frame(1) len refl sample_rates(3) rounding_no_readers refl,
      unfolded score_e double_rates(5,6)]
  have ce: "5404319552844595 / 2 ^ 55 \<le> (7656119366529843 / 2 ^ 53 :: real) \<and> (5404319552844595 / 2 ^ 55 :: real) \<le> 5404319552844595 / 2 ^ 55" by simp
  have re: "fetch_kline no_readers [(''BTC_USDT'', tier_contract), (''SOLUSDT'', plain_contract)]
      (\<lambda>_. Inr (5404319552844595 / 2 ^ 55)) (Body (JObj [(''data'', JArr (replicate 25 flat_row))])) ''XRP_USDT''
     = Inr (''XRP_USDT'', NotRecommended 15)"
    using e [THEN conjunct2, THEN conjunct2, THEN conjunct2, THEN conjunct2, THEN conjunct2, THEN conjunct1, THEN mp, OF ce] by (simp only: sample_printed)
  note w = risk_adjusted_thresholds [where fit_predict = "\<lambda>_. Inr (binary64 (86 / 100))"
      and P = no_readers, OF flat_frame(1) len refl sample_rates(1) rounding_no_readers refl]
  have rw: "fetch_kline_web no_readers (\<lambda>_. Inr (binary64 (86 / 100)))
      (Body (JObj [(''data'', JArr (replicate 25 flat_row))])) ''BTC_USDT''
     = Inr (''BTC_USDT'', Long 86)"
    using w [THEN conjunct2, THEN conjunct2, THEN conjunct2, THEN conjunct2, THEN conjunct2, THEN conjunct2,
        THEN conjunct1, THEN mp, OF flat_frame(2)]
    by (simp only: web_score if_True sample_printed)
  show ?thesis using ra rb rc rd re rw by (simp only: simp_thms)
qed

text \<open>
  The printed percentage is not the score: a probability of 115/128 with no contract
  metadata is its own adjusted score, 89.84375 percent, and the string shows 89.8.
\<close>

lemma score_f: "binary64 ((115 / 128) * binary64 (1 - binary64 (0 + 0))) = 115 / 128"
  by (simp add: b64)

lemma printed_f:
  "format1 (binary64 (115 / 128 * 100)) = 898 / 10"
  "binary64 (85 / 100) < 115 / 128"
  by (simp_all add: b64 format1_def)

theorem printed_percentage_counterexample:
  "fetch_kline no_readers [] (\<lambda>_. Inr (115 / 128))
      (Body (JObj [(''data'', JArr (replicate 25 flat_row))])) ''BTC_USDT''
     = Inr (''BTC_USDT'', Long (898 / 10))
   \<and> binary64 ((115 / 128) * binary64 (1 - binary64 (0 + 0))) = 115 / 128
   \<and> 115 / 128 * 100 \<noteq> (898 / 10 :: real)"
proof -
  have mr: "margin_rates [] ''BTC_USDT'' = (0, 0)" by (simp add: margin_rates_def)
  have "risk_signal binary64 [] ''BTC_USDT'' (115 / 128)
      = threshold_signal binary64 (binary64 ((115 / 128) * binary64 (1 - binary64 (0 + 0))))"
    by (simp only: risk_signal_def mr Let_def prod.case)
  also have "\<dots> = Long (898 / 10)"
    by (simp only: score_f threshold_signal_def printed_f if_True)
  finally have "risk_signal binary64 [] ''BTC_USDT'' (115 / 128) = Long (898 / 10)" .
  then have "fetch_kline no_readers [] (\<lambda>_. Inr (115 / 128))
      (Body (JObj [(''data'', JArr (replicate 25 flat_row))])) ''BTC_USDT''
     = Inr (''BTC_USDT'', Long (898 / 10))"
    by (simp add: fetch_kline_def flat_frame no_readers_def)
  moreover have "115 / 128 * 100 \<noteq> (898 / 10 :: real)" by simp
  ultimately show ?thesis using score_f by (simp only: simp_thms)
qed


section \<open>The RSI of test.py\<close>

lemma nn_cases: "nn x \<Longrightarrow> x = NZero \<or> (\<exists>r. x = Fin r \<and> 0 \<le> r)"
  by (cases x) auto

lemma diff_from_Fin: "diff_from (Fin p) (map Fin cs) = map Fin (deltas p cs)"
  by (induction cs arbitrary: p) (simp_all add: fsub_def)

lemma gain_Fin: "clip_lower0 (Fin d) = Fin (max d 0)"
  by (simp add: clip_lower0_def max_def)

lemma loss_Fin: "nn (fneg (clip_upper0 (Fin d))) \<and> fval (fneg (clip_upper0 (Fin d))) = max (- d) 0"
  by (simp add: clip_upper0_def max_def)

lemma ewm_step:
  assumes "nn w" "nn c" "0 < a" "a \<le> 1"
  shows "nn (if \<not> feq w c then fdiv (fadd (fmul (Fin (1 * (1 - a))) w) (fmul (Fin a) c)) (Fin (1 * (1 - a) + a)) else w)
       \<and> fval (if \<not> feq w c then fdiv (fadd (fmul (Fin (1 * (1 - a))) w) (fmul (Fin a) c)) (Fin (1 * (1 - a) + a)) else w)
           = (1 - a) * fval w + a * fval c"
proof (cases "feq w c")
  case True
  then have "fval w = fval c" using assms(1,2)
    by (cases w; cases c) (auto simp: feq_def)
  with True assms(1) show ?thesis by (simp add: algebra_simps)
next
  case False
  from assms(1) consider "w = NZero" | r where "w = Fin r" "0 \<le> r" using nn_cases by blast
  then show ?thesis
  proof cases
    case 1
    from assms(2) consider "c = NZero" | q where "c = Fin q" "0 \<le> q" using nn_cases by blast
    then show ?thesis
      using 1 False assms(3,4)
      by cases (auto simp: fmul_def fdiv_def zero_of_def inf_of_def feq_def)
  next
    case 2
    from assms(2) consider "c = NZero" | q where "c = Fin q" "0 \<le> q" using nn_cases by blast
    then show ?thesis
    proof cases
      case 1
      then show ?thesis using 2 False assms(3,4)
        by (auto simp: fmul_def fdiv_def zero_of_def inf_of_def feq_def)
    next
      case 2
      have s: "0 \<le> (1 - a) * r + a * q" using \<open>0 \<le> r\<close> 2 assms(3,4) by simp
      show ?thesis using \<open>w = Fin r\<close> \<open>0 \<le> r\<close> 2 False assms(3,4) s
        by (auto simp: fmul_def fdiv_def zero_of_def inf_of_def feq_def add_nonneg_eq_0_iff)
    qed
  qed
qed

lemma nn_not_NaN: "nn x \<Longrightarrow> x \<noteq> NaN"
  by auto

lemma ewm_loop_smooth:
  assumes "0 < a" "a \<le> 1"
  shows "nn w \<Longrightarrow> list_all nn xs \<Longrightarrow>
         list_all nn (ewm_loop a w 1 xs) \<and> map fval (ewm_loop a w 1 xs) = smooth a (fval w) (map fval xs)"
proof (induction xs arbitrary: w)
  case Nil
  then show ?case by simp
next
  case (Cons c xs)
  let ?w = "if \<not> feq w c then fdiv (fadd (fmul (Fin (1 * (1 - a))) w) (fmul (Fin a) c)) (Fin (1 * (1 - a) + a)) else w"
  from Cons.prems have c: "nn c" and xs: "list_all nn xs" by simp_all
  have st: "nn ?w \<and> fval ?w = (1 - a) * fval w + a * fval c"
    using ewm_step [OF Cons.prems(1) c assms] .
  have ih: "list_all nn (ewm_loop a ?w 1 xs) \<and>
      map fval (ewm_loop a ?w 1 xs) = smooth a (fval ?w) (map fval xs)"
    using Cons.IH st xs by blast
  have unfold: "ewm_loop a w 1 (c # xs) = ?w # ewm_loop a ?w 1 xs"
    using nn_not_NaN [OF Cons.prems(1)] nn_not_NaN [OF c] by (simp add: Let_def)
  show ?case unfolding unfold using st ih by simp
qed

lemma nn_not_inf: "list_all nn xs \<Longrightarrow> map (\<lambda>x. if is_inf x then NaN else x) xs = xs"
proof (induction xs)
  case Nil
  then show ?case by simp
next
  case (Cons x xs)
  then have "nn x" by simp
  then have "\<not> is_inf x" by (cases x) simp_all
  with Cons show ?case by simp
qed

lemma ewm_mean_wilder:
  assumes "0 < a" "a \<le> 1" "list_all nn xs"
  shows "\<exists>ys. ewm_mean a (NaN # xs) = NaN # ys \<and> list_all nn ys
              \<and> map fval ys = wilder_means a (map fval xs)"
proof (cases xs)
  case Nil
  then show ?thesis by (simp add: ewm_mean_def wilder_means_def)
next
  case (Cons x rest)
  with assms(3) have x: "nn x" and r: "list_all nn rest" by simp_all
  have "ewm_mean a (NaN # xs) = NaN # x # ewm_loop a x 1 rest"
    using nn_not_NaN [OF x] nn_not_inf [OF assms(3)] by (simp add: ewm_mean_def Cons)
  then show ?thesis
    using ewm_loop_smooth [OF assms(1,2) x r] x by (simp add: Cons wilder_means_def)
qed

lemma rsi_of_means:
  assumes "nn g" "nn l"
  shows "fsub (Fin 100) (fdiv (Fin 100) (fadd (Fin 1) (fdiv g l))) = rsi_value (fval g) (fval l)"
proof -
  from assms(1) consider "g = NZero" | a where "g = Fin a" "0 \<le> a" using nn_cases by blast
  then show ?thesis
  proof cases
    case 1
    from assms(2) consider "l = NZero" | b where "l = Fin b" "0 \<le> b" using nn_cases by blast
    then show ?thesis using 1
      by cases (auto simp: fdiv_def fsub_def rsi_value_def zero_of_def inf_of_def)
  next
    case 2
    from assms(2) consider "l = NZero" | b where "l = Fin b" "0 \<le> b" using nn_cases by blast
    then show ?thesis
    proof cases
      case 1
      then show ?thesis using 2
        by (auto simp: fdiv_def fsub_def rsi_value_def zero_of_def inf_of_def)
    next
      case 2
      have p: "a \<noteq> 0 \<Longrightarrow> b \<noteq> 0 \<Longrightarrow> 1 + a / b \<noteq> 0"
        using \<open>0 \<le> a\<close> 2 by (smt (verit) divide_nonneg_nonneg)
      show ?thesis using \<open>g = Fin a\<close> \<open>0 \<le> a\<close> 2 p
        by (auto simp: fdiv_def fsub_def rsi_value_def zero_of_def inf_of_def)
    qed
  qed
qed

lemma map2_rsi:
  "list_all nn gs \<Longrightarrow> list_all nn ls \<Longrightarrow>
   map (\<lambda>r. fsub (Fin 100) (fdiv (Fin 100) (fadd (Fin 1) r))) (map2 fdiv gs ls)
     = map2 rsi_value (map fval gs) (map fval ls)"
proof (induction gs arbitrary: ls)
  case Nil
  then show ?case by simp
next
  case (Cons g gs)
  show ?case
  proof (cases ls)
    case Nil
    then show ?thesis by simp
  next
    case (Cons l ls')
    with Cons.prems Cons.IH [of ls'] show ?thesis
      by (simp add: rsi_of_means)
  qed
qed

lemma NaN_rsi: "fsub (Fin 100) (fdiv (Fin 100) (fadd (Fin 1) (fdiv NaN NaN))) = NaN"
  by (simp add: fdiv_def fsub_def)

lemma compute_rsi_wilder:
  assumes "0 < period"
  shows "compute_rsi (map Fin cs) period = Inr (wilder_rsi cs period)"
proof (cases cs)
  case Nil
  then show ?thesis using assms
    by (simp add: compute_rsi_def wilder_rsi_def diff_def ewm_mean_def)
next
  case (Cons c rest)
  let ?a = "1 / real period"
  have a: "0 < ?a" "?a \<le> 1" using assms by simp_all
  let ?gain = "map clip_lower0 (map Fin (deltas c rest))"
  let ?loss = "map (\<lambda>d. fneg (clip_upper0 d)) (map Fin (deltas c rest))"
  have d: "diff (map Fin cs) = NaN # map Fin (deltas c rest)"
    by (simp add: diff_def Cons diff_from_Fin)
  have g: "list_all nn ?gain" "map fval ?gain = map (\<lambda>d. max d 0) (deltas c rest)"
    by (simp_all add: list_all_iff gain_Fin o_def)
  have l: "list_all nn ?loss" "map fval ?loss = map (\<lambda>d. max (- d) 0) (deltas c rest)"
    using loss_Fin by (simp_all add: list_all_iff o_def)
  from ewm_mean_wilder [OF a g(1)] obtain gs where
    gs: "ewm_mean ?a (NaN # ?gain) = NaN # gs" "list_all nn gs"
        "map fval gs = wilder_means ?a (map (\<lambda>d. max d 0) (deltas c rest))"
    unfolding g(2) by blast
  from ewm_mean_wilder [OF a l(1)] obtain ls where
    ls: "ewm_mean ?a (NaN # ?loss) = NaN # ls" "list_all nn ls"
        "map fval ls = wilder_means ?a (map (\<lambda>d. max (- d) 0) (deltas c rest))"
    unfolding l(2) by blast
  have cl: "clip_lower0 NaN = NaN" "fneg (clip_upper0 NaN) = NaN"
    by (simp_all add: clip_lower0_def clip_upper0_def)
  have "compute_rsi (map Fin cs) period =
      Inr (map (\<lambda>r. fsub (Fin 100) (fdiv (Fin 100) (fadd (Fin 1) r)))
             (map2 fdiv (NaN # gs) (NaN # ls)))"
    using assms gs(1) ls(1) by (simp add: compute_rsi_def d cl Let_def)
  also have "\<dots> = Inr (NaN # map2 rsi_value (map fval gs) (map fval ls))"
    using map2_rsi [OF gs(2) ls(2)] by (simp add: NaN_rsi)
  finally show ?thesis
    by (simp add: wilder_rsi_def Cons gs(3) ls(3))
qed

lemma length_deltas: "length (deltas p cs) = length cs"
  by (induction cs arbitrary: p) simp_all

lemma length_smooth: "length (smooth a m xs) = length xs"
  by (induction xs arbitrary: m) simp_all

lemma length_wilder_means: "length (wilder_means a xs) = length xs"
  by (cases xs) (simp_all add: wilder_means_def length_smooth)

lemma length_wilder_rsi: "length (wilder_rsi cs period) = length cs"
  by (cases cs) (simp_all add: wilder_rsi_def length_wilder_means length_deltas)

lemma deltas_positive: "sorted_wrt (<) (c # rest) \<Longrightarrow> \<forall>d \<in> set (deltas c rest). 0 < d"
  by (induction rest arbitrary: c) auto

lemma smooth_positive:
  assumes "0 < a" "a \<le> 1"
  shows "0 < m \<Longrightarrow> \<forall>x \<in> set xs. 0 < x \<Longrightarrow> \<forall>y \<in> set (smooth a m xs). 0 < y"
proof (induction xs arbitrary: m)
  case Nil
  then show ?case by simp
next
  case (Cons x xs)
  have "0 < (1 - a) * m + a * x"
    using assms Cons.prems by (simp add: add_nonneg_pos)
  with Cons show ?case by simp
qed

lemma wilder_means_positive:
  assumes "0 < a" "a \<le> 1" "\<forall>x \<in> set xs. 0 < x"
  shows "\<forall>y \<in> set (wilder_means a xs). 0 < y"
proof (cases xs)
  case Nil
  then show ?thesis by (simp add: wilder_means_def)
next
  case (Cons x rest)
  with assms(3) have x: "0 < x" and r: "\<forall>x \<in> set rest. 0 < x" by simp_all
  have "\<forall>y \<in> set (smooth a x rest). 0 < y"
    using smooth_positive [OF assms(1,2) x r] .
  with x show ?thesis by (simp add: Cons wilder_means_def)
qed

lemma smooth_zero: "smooth a 0 (map (\<lambda>_. 0) xs) = map (\<lambda>_. 0) xs"
  by (induction xs) simp_all

lemma wilder_means_zero: "wilder_means a (map (\<lambda>_. 0) xs) = map (\<lambda>_. 0) xs"
  by (cases xs) (simp_all add: wilder_means_def smooth_zero)

lemma map2_rsi_hundred:
  "length gs = length ds \<Longrightarrow> \<forall>g \<in> set gs. 0 < g \<Longrightarrow>
   map2 rsi_value gs (map (\<lambda>_. 0) ds) = map (\<lambda>_. Fin 100) ds"
  by (induction gs ds rule: list_induct2) (simp_all add: rsi_value_def)

lemma increasing_rsi:
  assumes "0 < period" "sorted_wrt (<) (c # rest)"
  shows "wilder_rsi (c # rest) period = NaN # map (\<lambda>_. Fin 100) rest"
proof -
  let ?a = "1 / real period"
  let ?ds = "deltas c rest"
  have a: "0 < ?a" "?a \<le> 1" using assms(1) by simp_all
  have pos: "\<forall>d \<in> set ?ds. 0 < d" using deltas_positive [OF assms(2)] .
  have g: "map (\<lambda>d. max d 0) ?ds = ?ds"
    using pos by (intro map_idI) (auto simp: max_def)
  have l: "map (\<lambda>d. max (- d) 0) ?ds = map (\<lambda>_. 0) ?ds"
    using pos by (auto simp: max_def)
  have "map2 rsi_value (wilder_means ?a ?ds) (map (\<lambda>_. 0) ?ds) = map (\<lambda>_. Fin 100) ?ds"
    using wilder_means_positive [OF a pos] by (intro map2_rsi_hundred) (simp_all add: length_wilder_means)
  also have "\<dots> = map (\<lambda>_. Fin 100) rest"
    by (simp add: map_replicate_const length_deltas)
  finally show ?thesis
    by (simp add: wilder_rsi_def g l wilder_means_zero)
qed

lemma rsi_value_NaN: "(rsi_value g l = NaN) = (g = 0 \<and> l = 0)"
  by (simp add: rsi_value_def)

text \<open>
  Claim C8, as the code has it. For a period of at least 1 and a series of numbers,
  \<^verbatim>\<open>compute_rsi\<close> is the indicator of the specification: gains \<open>max d 0\<close> and losses
  \<open>max (- d) 0\<close> of the steps, each smoothed with factor \<open>1 / period\<close> from its first
  value, and \<open>100 - 100 / (1 + avg_gain / avg_loss)\<close>. The result has the length of the
  series. Only the value at index 0 is undefined by position: the code sets no minimum
  number of periods, so from index 1 on the value is the formula's, undefined exactly
  when both averages are 0. On a strictly increasing series every value from index 1 on
  is 100.
\<close>

theorem rsi_is_wilder_smoothing:
  assumes "0 < period"
  shows "compute_rsi (map Fin cs) period = Inr (wilder_rsi cs period)
       \<and> length (wilder_rsi cs period) = length cs
       \<and> (cs \<noteq> [] \<longrightarrow> wilder_rsi cs period ! 0 = NaN)
       \<and> (\<forall>i. 1 \<le> i \<and> i < length cs \<longrightarrow>
             wilder_rsi cs period ! i =
               rsi_value
                 (wilder_means (1 / real period) (map (\<lambda>d. max d 0) (deltas (hd cs) (tl cs))) ! (i - 1))
                 (wilder_means (1 / real period) (map (\<lambda>d. max (- d) 0) (deltas (hd cs) (tl cs))) ! (i - 1)))
       \<and> (\<forall>g l. (rsi_value g l = NaN) = (g = 0 \<and> l = 0))
       \<and> (sorted_wrt (<) cs \<longrightarrow> (\<forall>i. 1 \<le> i \<and> i < length cs \<longrightarrow> wilder_rsi cs period ! i = Fin 100))"
proof (intro conjI allI impI)
  show "compute_rsi (map Fin cs) period = Inr (wilder_rsi cs period)"
    using assms by (rule compute_rsi_wilder)
  show "length (wilder_rsi cs period) = length cs" by (rule length_wilder_rsi)
  show "wilder_rsi cs period ! 0 = NaN" if "cs \<noteq> []"
    using that by (cases cs) (simp_all add: wilder_rsi_def)
  show "(rsi_value g l = NaN) = (g = 0 \<and> l = 0)" for g l by (rule rsi_value_NaN)
next
  fix i assume i: "1 \<le> i \<and> i < length cs"
  then obtain c rest where cs: "cs = c # rest" by (cases cs) auto
  from i obtain j where j: "i = Suc j" "j < length rest" using cs by (cases i) auto
  show "wilder_rsi cs period ! i =
               rsi_value
                 (wilder_means (1 / real period) (map (\<lambda>d. max d 0) (deltas (hd cs) (tl cs))) ! (i - 1))
                 (wilder_means (1 / real period) (map (\<lambda>d. max (- d) 0) (deltas (hd cs) (tl cs))) ! (i - 1))"
    using j by (simp add: cs wilder_rsi_def length_wilder_means length_deltas)
next
  fix i assume s: "sorted_wrt (<) cs" and i: "1 \<le> i \<and> i < length cs"
  then obtain c rest where cs: "cs = c # rest" by (cases cs) auto
  from i obtain j where j: "i = Suc j" "j < length rest" using cs by (cases i) auto
  show "wilder_rsi cs period ! i = Fin 100"
    using increasing_rsi [OF assms s [unfolded cs]] j by (simp add: cs)
qed

text \<open>A rising series of four prices, and the series 1, 3, 2, with the default period 14.\<close>

theorem rsi_is_wilder_smoothing_witness:
  "compute_rsi (map Fin [1, 2, 3, 4]) 14 = Inr [NaN, Fin 100, Fin 100, Fin 100]
   \<and> compute_rsi (map Fin [1, 3, 2]) 14 = Inr [NaN, Fin 100, Fin (2600 / 27)]"
proof -
  have p: "0 < (14::nat)" by simp
  have "wilder_rsi [1, 2, 3, 4] 14 = [NaN, Fin 100, Fin 100, Fin 100]"
    by (simp add: wilder_rsi_def wilder_means_def rsi_value_def)
  moreover have "wilder_rsi [1, 3, 2] 14 = [NaN, Fin 100, Fin (2600 / 27)]"
    by (simp add: wilder_rsi_def wilder_means_def rsi_value_def)
  ultimately show ?thesis
    using rsi_is_wilder_smoothing [OF p, of "[1, 2, 3, 4]", THEN conjunct1]
      rsi_is_wilder_smoothing [OF p, of "[1, 3, 2]", THEN conjunct1]
    by simp
qed

lemma get_klines_nonempty: "get_klines datetime_ok reply = Inr closes \<Longrightarrow> closes \<noteq> []"
  by (auto simp: get_klines_def Let_def split: kline_reply.splits if_splits option.splits)

lemma length_ewm_loop: "length (ewm_loop a w ow xs) = length xs"
  by (induction xs arbitrary: w ow) (simp_all add: Let_def)

lemma length_ewm_mean: "length (ewm_mean a xs) = length xs"
  by (cases xs) (simp_all add: ewm_mean_def length_ewm_loop)

lemma length_macd: "length (compute_macd_diff xs) = length xs"
  by (simp add: compute_macd_diff_def Let_def length_ewm_mean)

lemma smooth_nonneg:
  assumes "0 < a" "a \<le> 1"
  shows "0 \<le> m \<Longrightarrow> \<forall>x \<in> set xs. 0 \<le> x \<Longrightarrow> \<forall>y \<in> set (smooth a m xs). 0 \<le> y"
proof (induction xs arbitrary: m)
  case Nil
  then show ?case by simp
next
  case (Cons x xs)
  have "0 \<le> (1 - a) * m + a * x"
    using assms Cons.prems by simp
  with Cons show ?case by simp
qed

lemma wilder_means_nonneg:
  assumes "0 < a" "a \<le> 1" "\<forall>x \<in> set xs. 0 \<le> x"
  shows "\<forall>y \<in> set (wilder_means a xs). 0 \<le> y"
proof (cases xs)
  case Nil
  then show ?thesis by (simp add: wilder_means_def)
next
  case (Cons x rest)
  with assms(3) have x: "0 \<le> x" and r: "\<forall>x \<in> set rest. 0 \<le> x" by simp_all
  have "\<forall>y \<in> set (smooth a x rest). 0 \<le> y"
    using smooth_nonneg [OF assms(1,2) x r] .
  with x show ?thesis by (simp add: Cons wilder_means_def)
qed

lemma rsi_value_range:
  assumes "0 \<le> g" "0 \<le> l"
  shows "rsi_value g l = NaN \<or> percent (rsi_value g l)"
proof (cases "l = 0")
  case True
  then show ?thesis by (simp add: rsi_value_def percent_def)
next
  case False
  with assms have l: "0 < l" by simp
  have "0 \<le> g / l" using assms(1) l by simp
  then have "1 \<le> 1 + g / l" by simp
  then have "100 / (1 + g / l) \<le> 100" "0 < 100 / (1 + g / l)"
    by (simp_all add: divide_le_eq add_pos_nonneg)
  then show ?thesis using False by (simp add: rsi_value_def percent_def)
qed

lemma wilder_rsi_range:
  assumes "0 < period" "x \<in> set (wilder_rsi cs period)"
  shows "x = NaN \<or> percent x"
proof (cases cs)
  case Nil
  with assms(2) show ?thesis by (simp add: wilder_rsi_def)
next
  case (Cons c rest)
  define a where "a = 1 / real period"
  have a: "0 < a" "a \<le> 1" using assms(1) by (simp_all add: a_def)
  define gains where "gains = map (\<lambda>d. max d 0) (deltas c rest)"
  define losses where "losses = map (\<lambda>d. max (- d) 0) (deltas c rest)"
  have g0: "\<forall>x \<in> set gains. 0 \<le> x" by (simp add: gains_def)
  have l0: "\<forall>x \<in> set losses. 0 \<le> x" by (simp add: losses_def)
  have G: "\<forall>y \<in> set (wilder_means a gains). 0 \<le> y"
    using wilder_means_nonneg [OF a g0] .
  have L: "\<forall>y \<in> set (wilder_means a losses). 0 \<le> y"
    using wilder_means_nonneg [OF a l0] .
  have w: "wilder_rsi cs period = NaN # map2 rsi_value (wilder_means a gains) (wilder_means a losses)"
    by (simp add: wilder_rsi_def Cons a_def gains_def losses_def)
  show ?thesis
  proof (cases "x = NaN")
    case True
    then show ?thesis by simp
  next
    case False
    with assms(2) have "x \<in> set (map2 rsi_value (wilder_means a gains) (wilder_means a losses))"
      unfolding w by simp
    then obtain p where p: "p \<in> set (zip (wilder_means a gains) (wilder_means a losses))"
      and x: "x = rsi_value (fst p) (snd p)"
      by (auto simp: case_prod_beta)
    have "fst p \<in> set (wilder_means a gains)" "snd p \<in> set (wilder_means a losses)"
      using p by (metis prod.collapse set_zip_leftD, metis prod.collapse set_zip_rightD)
    then have "0 \<le> fst p" "0 \<le> snd p" using G L by blast+
    then show ?thesis unfolding x by (rule rsi_value_range)
  qed
qed

lemma round_half_even_range:
  assumes "0 \<le> y" "y \<le> 1000"
  shows "0 \<le> round_half_even y \<and> round_half_even y \<le> 1000"
proof -
  have f0: "0 \<le> \<lfloor>y\<rfloor>" using assms(1) by simp
  have f1: "\<lfloor>y\<rfloor> \<le> 1000" using assms(2) by (simp add: floor_le_iff)
  show ?thesis
  proof (cases "\<lfloor>y\<rfloor> = 1000")
    case True
    then have "y - of_int \<lfloor>y\<rfloor> \<le> 0" using assms(2) by simp
    then show ?thesis using True by (simp add: round_half_even_def Let_def)
  next
    case False
    with f1 have "\<lfloor>y\<rfloor> + 1 \<le> 1000" by linarith
    with f0 show ?thesis by (auto simp: round_half_even_def Let_def)
  qed
qed

lemma sample_klines:
  "get_klines all_dates (Reply 200 (Some [candle 1, candle 3, candle 2])) = Inr (map Fin [1, 3, 2])"
  "get_klines all_dates (Reply 200 (Some [candle 5, candle 5])) = Inr (map Fin [5, 5])"
  by (auto simp: get_klines_def candle_def cell_def all_dates_def Let_def)

lemma sample_wilder:
  "wilder_rsi [1, 3, 2] 14 = [NaN, Fin 100, Fin (2600 / 27)]"
  "wilder_rsi [5, 5] 14 = [NaN, NaN]"
  by (simp_all add: wilder_rsi_def wilder_means_def rsi_value_def)

lemma sample_rsi:
  "compute_rsi [Fin 1, Fin 3, Fin 2] 14 = Inr [NaN, Fin 100, Fin (2600 / 27)]"
  "compute_rsi [Fin 5, Fin 5] 14 = Inr [NaN, NaN]"
proof -
  have p: "0 < (14::nat)" by simp
  show "compute_rsi [Fin 1, Fin 3, Fin 2] 14 = Inr [NaN, Fin 100, Fin (2600 / 27)]"
    using compute_rsi_wilder [OF p, of "[1, 3, 2]"] by (simp add: sample_wilder)
  show "compute_rsi [Fin 5, Fin 5] 14 = Inr [NaN, NaN]"
    using compute_rsi_wilder [OF p, of "[5, 5]"] by (simp add: sample_wilder)
qed

lemma sample_macd:
  "compute_macd_diff [Fin 1, Fin 3, Fin 2] = [Fin 0, Fin (224 / 1755), Fin (421456 / 3080025)]"
  "compute_macd_diff [Fin 5, Fin 5] = [Fin 0, Fin 0]"
  by (simp_all add: compute_macd_diff_def ewm_mean_def fsub_def feq_def fmul_def fdiv_def
      zero_of_def inf_of_def Let_def)

text \<open>
  Claim C8 as stated fails: with period 14 the values at indices 1 and 2 of the RSI of the
  three prices 1, 3, 2 are numbers, not undefined.
\<close>

theorem rsi_defined_before_period_counterexample:
  "compute_rsi [Fin 1, Fin 3, Fin 2] 14 = Inr [NaN, Fin 100, Fin (2600 / 27)]
   \<and> length [Fin 1, Fin 3, Fin 2] < (14::nat)"
  using sample_rsi(1) by simp

section \<open>The rounding of doubles\<close>

lemma expo_ge_bounds:
  "1 \<le> a \<Longrightarrow> 2 powi (expo_ge a) \<le> a \<and> a < 2 powi (expo_ge a + 1)"
proof (induction a rule: expo_ge.induct)
  case (1 a)
  show ?case
  proof (cases "2 \<le> a")
    case True
    then have ih: "2 powi (expo_ge (a / 2)) \<le> a / 2 \<and> a / 2 < 2 powi (expo_ge (a / 2) + 1)"
      using "1.IH" by simp
    have e: "expo_ge a = expo_ge (a / 2) + 1"
      using True by (subst expo_ge.simps) simp
    have p: "(2::real) powi (expo_ge (a / 2) + 1 + 1) = 2 powi (expo_ge (a / 2) + 1) * 2"
      by (rule power_int_add_1) simp
    have p0: "(2::real) powi (expo_ge (a / 2) + 1) = 2 powi (expo_ge (a / 2)) * 2"
      by (rule power_int_add_1) simp
    show ?thesis using ih unfolding e p by (simp add: p0)
  next
    case False
    then have "expo_ge a = 0" by (subst expo_ge.simps) simp
    then show ?thesis using False "1.prems" by simp
  qed
qed

lemma expo_lt_bounds:
  "0 < a \<Longrightarrow> a < 1 \<Longrightarrow> 2 powi (expo_lt a) \<le> a \<and> a < 2 powi (expo_lt a + 1)"
proof (induction a rule: expo_lt.induct)
  case (1 a)
  have e: "expo_lt a = expo_lt (a * 2) - 1"
    using "1.prems" by (subst expo_lt.simps) simp
  show ?case
  proof (cases "a * 2 < 1")
    case True
    then have ih: "2 powi (expo_lt (a * 2)) \<le> a * 2 \<and> a * 2 < 2 powi (expo_lt (a * 2) + 1)"
      using "1.IH" "1.prems" by simp
    have p: "(2::real) powi (expo_lt (a * 2) - 1) * 2 = 2 powi (expo_lt (a * 2))"
      by (rule power_int_minus_mult) simp
    have q: "(2::real) powi (expo_lt (a * 2) + 1) = 2 powi (expo_lt (a * 2)) * 2"
      by (rule power_int_add_1) simp
    show ?thesis using ih p q unfolding e by simp
  next
    case False
    then have "expo_lt (a * 2) = 0" by (subst expo_lt.simps) simp
    then show ?thesis using False "1.prems" unfolding e by (simp add: power_int_minus)
  qed
qed

lemma exponent_bounds:
  "0 < a \<Longrightarrow> 2 powi (exponent a) \<le> a \<and> a < 2 powi (exponent a + 1)"
  using expo_ge_bounds [of a] expo_lt_bounds [of a] by (simp add: exponent_def)

lemma exponent_mono:
  assumes "0 < a" "a \<le> b"
  shows "exponent a \<le> exponent b"
proof (rule ccontr)
  assume "\<not> exponent a \<le> exponent b"
  then have "exponent b + 1 \<le> exponent a" by simp
  then have "(2::real) powi (exponent b + 1) \<le> 2 powi (exponent a)"
    by (intro power_int_increasing) simp_all
  then show False
    using exponent_bounds [of a] exponent_bounds [of b] assms by simp
qed

lemma round_half_even_bounds: "\<lfloor>y\<rfloor> \<le> round_half_even y \<and> round_half_even y \<le> \<lfloor>y\<rfloor> + 1"
  by (simp add: round_half_even_def Let_def)

lemma round_half_even_mono:
  assumes "y \<le> z"
  shows "round_half_even y \<le> round_half_even z"
proof (cases "\<lfloor>y\<rfloor> = \<lfloor>z\<rfloor>")
  case True
  then show ?thesis using assms by (auto simp: round_half_even_def Let_def)
next
  case False
  then have "\<lfloor>y\<rfloor> + 1 \<le> \<lfloor>z\<rfloor>" using floor_mono [OF assms] by simp
  then show ?thesis
    using round_half_even_bounds [of y] round_half_even_bounds [of z] by linarith
qed

lemma round_half_even_int: "round_half_even (of_int n) = n"
  by (simp add: round_half_even_def)

lemma ulp_pos: "0 < ulp a"
  by (simp add: ulp_def)

text \<open>The rounding of a positive number stays between the powers of two around it.\<close>

lemma rounded_upper:
  assumes "0 < a"
  shows "of_int (round_half_even (a / ulp a)) * ulp a \<le> 2 powi (max (exponent a) (- 1022) + 1)"
proof -
  define k where "k = max (exponent a) (- 1022)"
  have u: "ulp a = 2 powi (k - 52)" by (simp add: ulp_def k_def)
  have "a < 2 powi (exponent a + 1)" using exponent_bounds [OF assms] by simp
  also have "\<dots> \<le> 2 powi (k + 1)" by (intro power_int_increasing) (simp_all add: k_def)
  finally have "a < 2 powi (k + 1)" .
  moreover have s: "(2::real) powi (k + 1) = 2 powi 53 * 2 powi (k - 52)"
    using power_int_add [of "2::real" 53 "k - 52"] by (simp add: add.commute)
  ultimately have "a / ulp a < 2 powi 53"
    using ulp_pos [of a] by (simp add: u pos_divide_less_eq)
  then have "a / ulp a \<le> of_int (2 ^ 53)" by simp
  then have "round_half_even (a / ulp a) \<le> 2 ^ 53"
    using round_half_even_mono round_half_even_int by metis
  then have "(of_int (round_half_even (a / ulp a)) :: real) \<le> 2 powi 53"
    by (metis of_int_le_iff of_int_numeral of_int_power power_int_numeral)
  then have "of_int (round_half_even (a / ulp a)) * ulp a \<le> 2 powi 53 * ulp a"
    using ulp_pos [of a] by (simp add: mult_right_mono)
  then show ?thesis using s by (simp add: u k_def)
qed

lemma rounded_lower:
  assumes "0 < a" and "- 1022 \<le> exponent a"
  shows "2 powi (exponent a) \<le> of_int (round_half_even (a / ulp a)) * ulp a"
proof -
  have u: "ulp a = 2 powi (exponent a - 52)" using assms(2) by (simp add: ulp_def max_def)
  have s: "(2::real) powi (exponent a) = 2 powi 52 * 2 powi (exponent a - 52)"
    using power_int_add [of "2::real" 52 "exponent a - 52"] by simp
  have "2 powi (exponent a) \<le> a" using exponent_bounds [OF assms(1)] by simp
  then have "2 powi 52 \<le> a / ulp a"
    using ulp_pos [of a] by (simp add: u s pos_le_divide_eq)
  then have "of_int (2 ^ 52) \<le> a / ulp a" by simp
  then have "2 ^ 52 \<le> round_half_even (a / ulp a)"
    using round_half_even_mono round_half_even_int by metis
  then have "(2::real) powi 52 \<le> of_int (round_half_even (a / ulp a))"
    by (metis of_int_le_iff of_int_numeral of_int_power power_int_numeral)
  then have "2 powi 52 * ulp a \<le> of_int (round_half_even (a / ulp a)) * ulp a"
    using ulp_pos [of a] by (simp add: mult_right_mono)
  then show ?thesis using s by (simp add: u)
qed

lemma rounded_mono:
  assumes "0 < a" "a \<le> b"
  shows "of_int (round_half_even (a / ulp a)) * ulp a \<le> of_int (round_half_even (b / ulp b)) * ulp b"
proof (cases "max (exponent a) (- 1022) = max (exponent b) (- 1022)")
  case True
  then have u: "ulp a = ulp b" by (simp add: ulp_def)
  have "a / ulp b \<le> b / ulp b" using assms(2) ulp_pos [of b] by (simp add: divide_right_mono)
  then have "round_half_even (a / ulp b) \<le> round_half_even (b / ulp b)"
    by (rule round_half_even_mono)
  then show ?thesis using ulp_pos [of b] by (simp add: u mult_right_mono)
next
  case False
  have e: "exponent a \<le> exponent b" using exponent_mono [OF assms] .
  with False have lt: "max (exponent a) (- 1022) < exponent b" and b: "- 1022 \<le> exponent b"
    by (auto simp: max_def split: if_splits)
  have "of_int (round_half_even (a / ulp a)) * ulp a \<le> 2 powi (max (exponent a) (- 1022) + 1)"
    using rounded_upper [OF assms(1)] .
  also have "\<dots> \<le> 2 powi (exponent b)"
  proof (intro power_int_increasing)
    show "max (exponent a) (- 1022) + 1 \<le> exponent b" using lt by linarith
  qed simp
  also have "\<dots> \<le> of_int (round_half_even (b / ulp b)) * ulp b"
    using rounded_lower [OF _ b] assms by simp
  finally show ?thesis .
qed

lemma rounded_nonneg:
  assumes "0 < a"
  shows "0 \<le> of_int (round_half_even (a / ulp a)) * ulp a"
proof -
  have "0 \<le> a / ulp a" using assms ulp_pos [of a] by simp
  then have "round_half_even 0 \<le> round_half_even (a / ulp a)" by (rule round_half_even_mono)
  then have "0 \<le> round_half_even (a / ulp a)" by (simp add: round_half_even_def)
  then show ?thesis using ulp_pos [of a] by simp
qed

lemma binary64_mono:
  assumes "x \<le> y"
  shows "binary64 x \<le> binary64 y"
proof -
  consider "0 < x" | "y < 0" | "x \<le> 0" "0 \<le> y" using assms by linarith
  then show ?thesis
  proof cases
    case 1
    then show ?thesis using rounded_mono [of x y] assms by (simp add: binary64_def)
  next
    case 2
    then have "0 < - y" "- y \<le> - x" "x < 0" using assms by simp_all
    then show ?thesis using rounded_mono [of "- y" "- x"] 2 by (simp add: binary64_def)
  next
    case 3
    have "binary64 x \<le> 0"
    proof (cases "x = 0")
      case True
      then show ?thesis by (simp add: binary64_def)
    next
      case False
      then have "0 < - x" using 3 by simp
      then show ?thesis using rounded_nonneg [of "- x"] False 3 by (simp add: binary64_def)
    qed
    moreover have "0 \<le> binary64 y"
    proof (cases "y = 0")
      case True
      then show ?thesis by (simp add: binary64_def)
    next
      case False
      then have "0 < y" using 3 by simp
      then show ?thesis using rounded_nonneg [of y] by (simp add: binary64_def)
    qed
    ultimately show ?thesis by simp
  qed
qed

section \<open>The indicator policy of test.py\<close>

lemma fround_exact: "fround (\<lambda>x. x) y = y"
  by (cases y) (simp_all add: fround_def zero_of_def)

lemma exact_operations:
  "radd (\<lambda>x. x) a b = fadd a b" "rsub (\<lambda>x. x) a b = fsub a b"
  "rmul (\<lambda>x. x) a b = fmul a b" "rdiv (\<lambda>x. x) a b = fdiv a b"
  by (simp_all add: radd_def rsub_def rmul_def rdiv_def fround_exact)

lemma exact_diff_from: "diff_from_r (\<lambda>x. x) p xs = diff_from p xs"
  by (induction xs arbitrary: p) (simp_all add: exact_operations)

lemma exact_ewm_loop: "ewm_loop_r (\<lambda>x. x) a (1 - a) w ow xs = ewm_loop a w ow xs"
  by (induction xs arbitrary: w ow) (simp_all add: exact_operations Let_def)

lemma exact_ewm_mean:
  assumes "0 < a"
  shows "ewm_mean_r (\<lambda>x. x) ((1 - a) / a) xs = ewm_mean a xs"
proof -
  have "1 + (1 - a) / a = 1 / a" using assms by (simp add: field_simps)
  then have "1 / (1 + (1 - a) / a) = a" by simp
  then show ?thesis
    by (simp add: ewm_mean_r_def ewm_mean_def exact_ewm_loop split: list.splits)
qed

text \<open>
  With a rounding that changes nothing, the indicators as \<^verbatim>\<open>analyze_symbol\<close> runs them are
  the indicators in exact arithmetic, which the section on the RSI compares with the
  formula of the specification.
\<close>

lemma exact_arithmetic:
  "0 < period \<Longrightarrow> compute_rsi_r (\<lambda>x. x) xs period = compute_rsi xs period"
  "compute_macd_diff_r (\<lambda>x. x) xs = compute_macd_diff xs"
proof -
  show "compute_rsi_r (\<lambda>x. x) xs period = compute_rsi xs period" if "0 < period"
  proof -
    have a: "0 < 1 / real period" "1 / real period \<le> 1" using that by simp_all
    have d: "diff_r (\<lambda>x. x) xs = diff xs"
      by (simp add: diff_r_def diff_def exact_diff_from split: list.splits)
    have r: "rdiv (\<lambda>x. x) = fdiv"
      by (intro ext) (simp add: exact_operations)
    show ?thesis
      using that a exact_ewm_mean [OF a(1)]
      by (simp add: compute_rsi_r_def compute_rsi_def Let_def d r exact_operations)
  qed
  have "ewm_mean_r (\<lambda>x. x) (11 / 2) ys = ewm_mean (2 / 13) ys"
    "ewm_mean_r (\<lambda>x. x) (25 / 2) ys = ewm_mean (2 / 27) ys"
    "ewm_mean_r (\<lambda>x. x) 4 ys = ewm_mean (2 / 10) ys" for ys
    using exact_ewm_mean [of "2 / 13" ys] exact_ewm_mean [of "2 / 27" ys]
      exact_ewm_mean [of "2 / 10" ys] by simp_all
  moreover have "rsub (\<lambda>x. x) = fsub"
    by (intro ext) (simp add: exact_operations)
  ultimately show "compute_macd_diff_r (\<lambda>x. x) xs = compute_macd_diff xs"
    by (simp add: compute_macd_diff_r_def compute_macd_diff_def Let_def)
qed

lemma rd_nonneg: "\<forall>x y. x \<le> y \<longrightarrow> rd x \<le> rd y \<Longrightarrow> rd 0 = (0::real) \<Longrightarrow> 0 \<le> x \<Longrightarrow> 0 \<le> rd (x::real)"
  by metis

lemma fround_not_neg:
  assumes "\<forall>x y. x \<le> y \<longrightarrow> rd x \<le> rd y" and "rd 0 = 0" and "not_neg x"
  shows "not_neg (fround rd x)"
proof (cases x)
  case (Fin r)
  then have "0 \<le> r" using assms(3) by simp
  then have "0 \<le> rd r" using rd_nonneg [OF assms(1,2)] by simp
  then show ?thesis using Fin \<open>0 \<le> r\<close> by (simp add: fround_def zero_of_def)
qed (use assms(3) in \<open>simp_all add: fround_def\<close>)

lemma not_neg_fmul: "0 \<le> a \<Longrightarrow> not_neg x \<Longrightarrow> not_neg (fmul (Fin a) x)"
  by (cases x) (auto simp: fmul_def zero_of_def inf_of_def)

lemma not_neg_fadd: "not_neg x \<Longrightarrow> not_neg y \<Longrightarrow> not_neg (fadd x y)"
  by (cases x; cases y) auto

lemma not_neg_fdiv: "0 \<le> d \<Longrightarrow> not_neg x \<Longrightarrow> not_neg (fdiv x (Fin d))"
  by (cases x) (auto simp: fdiv_def zero_of_def inf_of_def)

lemma not_neg_step:
  assumes m: "\<forall>x y. x \<le> y \<longrightarrow> rd x \<le> rd y" and z: "rd 0 = 0"
    and "0 \<le> a" "0 \<le> b" "0 \<le> d" "not_neg w" "not_neg c"
  shows "not_neg (rdiv rd (radd rd (rmul rd (Fin a) w) (rmul rd (Fin b) c)) (Fin d))"
  unfolding rdiv_def radd_def rmul_def
  using assms
  by (intro fround_not_neg [OF m z] not_neg_fdiv not_neg_fadd not_neg_fmul)

lemma not_neg_ewm_loop:
  assumes m: "\<forall>x y. x \<le> y \<longrightarrow> rd x \<le> rd y" and z: "rd 0 = 0"
    and nw: "0 \<le> nw" and f: "0 \<le> owf"
  shows "\<forall>x \<in> set xs. not_neg x \<Longrightarrow> not_neg w \<Longrightarrow> 0 \<le> ow
         \<Longrightarrow> \<forall>y \<in> set (ewm_loop_r rd nw owf w ow xs). not_neg y"
proof (induction xs arbitrary: w ow)
  case Nil
  then show ?case by simp
next
  case (Cons c xs)
  have c: "not_neg c" and r: "\<forall>x \<in> set xs. not_neg x" using Cons.prems(1) by simp_all
  have o1: "0 \<le> rd (ow * owf)"
    using rd_nonneg [OF m z] Cons.prems(3) f by simp
  have d: "0 \<le> rd (rd (ow * owf) + nw)"
    using rd_nonneg [OF m z] o1 nw by simp
  have s: "not_neg (rdiv rd (radd rd (rmul rd (Fin (rd (ow * owf))) w) (rmul rd (Fin nw) c))
      (Fin (rd (rd (ow * owf) + nw))))"
    using not_neg_step [OF m z o1 nw d Cons.prems(2) c] .
  show ?case
    using Cons.IH [OF r s, of 1] Cons.IH [OF r Cons.prems(2), of 1]
      Cons.IH [OF r Cons.prems(2) o1] Cons.IH [OF r c Cons.prems(3)]
      Cons.IH [OF r Cons.prems(2,3)] Cons.prems(2) c s
    by (simp add: Let_def)
qed

lemma not_neg_ewm_mean:
  assumes m: "\<forall>x y. x \<le> y \<longrightarrow> rd x \<le> rd y" and z: "rd 0 = 0" and o: "rd 1 = 1"
    and com: "0 \<le> com" and xs: "\<forall>x \<in> set xs. not_neg x"
  shows "\<forall>y \<in> set (ewm_mean_r rd com xs). not_neg y"
proof -
  have q: "1 \<le> rd (1 + com)" using m o com by (metis add_increasing2 order_refl)
  then have "1 / rd (1 + com) \<le> 1" "0 \<le> 1 / rd (1 + com)" by simp_all
  then have a: "0 \<le> rd (1 / rd (1 + com))" "rd (1 / rd (1 + com)) \<le> 1"
    using m z o by metis+
  then have f: "0 \<le> rd (1 - rd (1 / rd (1 + com)))"
    using rd_nonneg [OF m z] by simp
  let ?ys = "map (\<lambda>x. if is_inf x then NaN else x) xs"
  have ys: "\<forall>y \<in> set ?ys. not_neg y" using xs by auto
  show ?thesis
  proof (cases ?ys)
    case Nil
    then show ?thesis by (simp add: ewm_mean_r_def)
  next
    case (Cons y rest)
    then have y: "not_neg y" and r: "\<forall>x \<in> set rest. not_neg x"
      using ys by (metis list.set_intros(1), metis list.set_intros(2))
    have "\<forall>v \<in> set (ewm_loop_r rd (rd (1 / rd (1 + com))) (rd (1 - rd (1 / rd (1 + com)))) y 1 rest). not_neg v"
      using not_neg_ewm_loop [OF m z a(1) f r y, of 1] by simp
    then show ?thesis using Cons y by (simp add: ewm_mean_r_def Let_def)
  qed
qed

lemma not_neg_gain: "not_neg (clip_lower0 d)"
  by (cases d) (auto simp: clip_lower0_def)

lemma not_neg_loss: "not_neg (fneg (clip_upper0 d))"
  by (cases d) (auto simp: clip_upper0_def)


lemma rs_class:
  assumes m: "\<forall>x y. x \<le> y \<longrightarrow> rd x \<le> rd y" and z: "rd 0 = 0"
    and "not_neg g" "not_neg l"
  shows "\<forall>q. rdiv rd g l = Fin q \<longrightarrow> 0 \<le> q"
proof -
  have d: "\<forall>q. fdiv g l = Fin q \<longrightarrow> 0 \<le> q"
    using assms(3,4) by (cases g; cases l) (auto simp: fdiv_def zero_of_def inf_of_def)
  show ?thesis
  proof (cases "fdiv g l")
    case (Fin r)
    then have "0 \<le> r" using d by simp
    then have "0 \<le> rd r" using rd_nonneg [OF m z] by simp
    then show ?thesis using Fin by (auto simp: rdiv_def fround_def zero_of_def)
  qed (simp_all add: rdiv_def fround_def)
qed

lemma one_plus_class:
  assumes m: "\<forall>x y. x \<le> y \<longrightarrow> rd x \<le> rd y" and o: "rd 1 = 1"
    and "\<forall>q. r = Fin q \<longrightarrow> 0 \<le> q"
  shows "radd rd (Fin 1) r \<noteq> NZero \<and> (\<forall>q. radd rd (Fin 1) r = Fin q \<longrightarrow> 1 \<le> q)"
proof (cases r)
  case (Fin q)
  then have "0 \<le> q" using assms(3) by simp
  then have "1 \<le> rd (1 + q)" using m o by (metis add_increasing2 order_refl)
  then show ?thesis using Fin by (simp add: radd_def fround_def)
next
  case NZero
  then show ?thesis using o by (simp add: radd_def fround_def)
qed (simp_all add: radd_def fround_def)

lemma quotient_class:
  assumes m: "\<forall>x y. x \<le> y \<longrightarrow> rd x \<le> rd y" and z: "rd 0 = 0" and h: "rd 100 = 100"
    and "t \<noteq> NZero" "\<forall>q. t = Fin q \<longrightarrow> 1 \<le> q"
  shows "rdiv rd (Fin 100) t \<noteq> PInf \<and> rdiv rd (Fin 100) t \<noteq> NInf
       \<and> (\<forall>p. rdiv rd (Fin 100) t = Fin p \<longrightarrow> 0 \<le> p \<and> p \<le> 100)"
proof (cases t)
  case (Fin q)
  then have q: "1 \<le> q" using assms(5) by simp
  then have "0 \<le> 100 / q" "100 / q \<le> 100" by (simp_all add: divide_le_eq)
  then have "0 \<le> rd (100 / q)" "rd (100 / q) \<le> 100"
    using m z h by metis+
  moreover have "fdiv (Fin 100) (Fin q) = Fin (100 / q)"
    using q by (simp add: fdiv_def)
  ultimately show ?thesis using Fin by (simp add: rdiv_def fround_def zero_of_def)
next
  case NZero
  then show ?thesis using assms(4) by simp
qed (simp_all add: rdiv_def fround_def fdiv_def zero_of_def inf_of_def z)

lemma rsi_class:
  assumes m: "\<forall>x y. x \<le> y \<longrightarrow> rd x \<le> rd y" and z: "rd 0 = 0" and h: "rd 100 = 100"
    and "u \<noteq> PInf" "u \<noteq> NInf" "\<forall>p. u = Fin p \<longrightarrow> 0 \<le> p \<and> p \<le> 100"
  shows "rsub rd (Fin 100) u = NaN \<or> percent (rsub rd (Fin 100) u)"
proof (cases u)
  case (Fin p)
  then have p: "0 \<le> p" "p \<le> 100" using assms(6) by simp_all
  then have "0 \<le> 100 - p" "100 - p \<le> 100" by simp_all
  then have r: "0 \<le> rd (100 - p)" "rd (100 - p) \<le> 100"
    using m z h by metis+
  have "fsub (Fin 100) (Fin p) = Fin (100 - p)"
    by (simp add: fsub_def)
  then show ?thesis using Fin r p by (simp add: rsub_def fround_def zero_of_def percent_def)
next
  case NZero
  then show ?thesis using h by (simp add: rsub_def fsub_def fround_def percent_def)
qed (use assms(4,5) in \<open>simp_all add: rsub_def fsub_def fround_def\<close>)

lemma rsi_percent_or_nan:
  assumes "monotone_rounding rd" and "not_neg g" "not_neg l"
  shows "rsub rd (Fin 100) (rdiv rd (Fin 100) (radd rd (Fin 1) (rdiv rd g l))) = NaN
       \<or> percent (rsub rd (Fin 100) (rdiv rd (Fin 100) (radd rd (Fin 1) (rdiv rd g l))))"
proof -
  have m: "\<forall>x y. x \<le> y \<longrightarrow> rd x \<le> rd y" and z: "rd 0 = 0" and o: "rd 1 = 1" and h: "rd 100 = 100"
    using assms(1) by (simp_all add: monotone_rounding_def)
  note a = rs_class [OF m z assms(2,3)]
  note b = one_plus_class [OF m o a]
  note c = quotient_class [OF m z h b [THEN conjunct1] b [THEN conjunct2]]
  show ?thesis
    using rsi_class [OF m z h c [THEN conjunct1] c [THEN conjunct2, THEN conjunct1]
        c [THEN conjunct2, THEN conjunct2]] .
qed

lemma fround_interval:
  assumes m: "\<forall>x y. x \<le> y \<longrightarrow> rd x \<le> rd y" and z: "rd 0 = 0"
    and "0 \<le> x" "x \<le> hi" "rd hi = hi"
  shows "\<exists>v. fround rd (Fin x) = Fin v \<and> 0 \<le> v \<and> v \<le> hi"
proof -
  have "0 \<le> rd x" "rd x \<le> hi" using assms by metis+
  then show ?thesis using assms(3) by (auto simp: fround_def zero_of_def)
qed

lemma strength_percent:
  assumes "monotone_rounding rd" and "percent x"
  shows "percent (rmul rd (rdiv rd (fabs (rsub rd x (Fin 50))) (Fin 50)) (Fin 100))"
proof -
  have m: "\<forall>x y. x \<le> y \<longrightarrow> rd x \<le> rd y" and z: "rd 0 = 0" and o: "rd 1 = 1"
    and f: "rd 50 = 50" and f': "rd (- 50) = - 50" and h: "rd 100 = 100"
    using assms(1) by (simp_all add: monotone_rounding_def)
  obtain r where x: "x = Fin r" and r: "0 \<le> r" "r \<le> 100"
    using assms(2) by (cases x) (simp_all add: percent_def)
  have "r - 50 \<le> 50" "- 50 \<le> r - 50" using r by simp_all
  then have v: "rd (r - 50) \<le> 50" "- 50 \<le> rd (r - 50)"
    using m f f' by metis+
  have "fsub (Fin r) (Fin 50) = Fin (r - 50)" by (simp add: fsub_def)
  then have "fabs (rsub rd x (Fin 50)) = Fin \<bar>rd (r - 50)\<bar>"
    by (simp add: x rsub_def fround_def zero_of_def)
  moreover have "\<bar>rd (r - 50)\<bar> \<le> 50" using v by simp
  ultimately obtain y where y: "fabs (rsub rd x (Fin 50)) = Fin y" "0 \<le> y" "y \<le> 50"
    by simp
  have "fdiv (Fin y) (Fin 50) = Fin (y / 50)"
    by (simp add: fdiv_def zero_of_def)
  moreover have "0 \<le> y / 50" "y / 50 \<le> 1" using y by simp_all
  ultimately obtain w where w: "rdiv rd (Fin y) (Fin 50) = Fin w" "0 \<le> w" "w \<le> 1"
    using fround_interval [OF m z _ _ o, of "y / 50"] by (auto simp: rdiv_def)
  have "fmul (Fin w) (Fin 100) = Fin (w * 100)"
    using w(2) by (simp add: fmul_def zero_of_def)
  moreover have "0 \<le> w * 100" "w * 100 \<le> 100" using w by simp_all
  ultimately obtain p where "rmul rd (Fin w) (Fin 100) = Fin p" "0 \<le> p" "p \<le> 100"
    using fround_interval [OF m z _ _ h, of "w * 100"] by (auto simp: rmul_def)
  then show ?thesis by (simp add: y w percent_def)
qed

lemma round1_percent:
  assumes "monotone_rounding rd" and "percent x"
  shows "percent (np_round1 rd x)"
proof -
  have m: "\<forall>x y. x \<le> y \<longrightarrow> rd x \<le> rd y" and z: "rd 0 = 0"
    and h: "rd 100 = 100" and k: "rd 1000 = 1000"
    using assms(1) by (simp_all add: monotone_rounding_def)
  obtain r where x: "x = Fin r" and r: "0 \<le> r" "r \<le> 100"
    using assms(2) by (cases x) (simp_all add: percent_def)
  have "fmul (Fin r) (Fin 10) = Fin (r * 10)"
    using r(1) by (simp add: fmul_def zero_of_def)
  moreover have "0 \<le> r * 10" "r * 10 \<le> 1000" using r by simp_all
  ultimately obtain y where y: "rmul rd x (Fin 10) = Fin y" "0 \<le> y" "y \<le> 1000"
    using fround_interval [OF m z _ _ k, of "r * 10"] by (auto simp: rmul_def x)
  have n: "0 \<le> round_half_even y \<and> round_half_even y \<le> 1000"
    using round_half_even_range [OF y(2,3)] .
  then have i: "rint (Fin y) = Fin (of_int (round_half_even y))"
    using y(2) by (simp add: zero_of_def)
  have "fdiv (Fin (of_int (round_half_even y))) (Fin 10) = Fin (of_int (round_half_even y) / 10)"
    by (simp add: fdiv_def zero_of_def)
  moreover have "0 \<le> (of_int (round_half_even y) :: real) / 10"
    "(of_int (round_half_even y) :: real) / 10 \<le> 100" using n by simp_all
  ultimately obtain p where "rdiv rd (Fin (of_int (round_half_even y))) (Fin 10) = Fin p"
    "0 \<le> p" "p \<le> 100"
    using fround_interval [OF m z _ _ h, of "of_int (round_half_even y) / 10"]
    by (auto simp: rdiv_def)
  then show ?thesis by (simp add: np_round1_def y i percent_def del: rint.simps)
qed

lemma fround_nonneg: "0 \<le> x \<Longrightarrow> fround rd (Fin x) = Fin (rd x)"
  by (simp add: fround_def zero_of_def)

lemma round1_nearest:
  assumes "monotone_rounding rd" and "percent x"
  shows "\<exists>sv n. x = Fin sv \<and> \<bar>real_of_int n - rd (sv * 10)\<bar> \<le> 1 / 2
           \<and> np_round1 rd x = Fin (rd (real_of_int n / 10))"
proof -
  have m: "\<forall>x y. x \<le> y \<longrightarrow> rd x \<le> rd y" and z: "rd 0 = 0"
    using assms(1) by (simp_all add: monotone_rounding_def)
  obtain r where x: "x = Fin r" and r: "0 \<le> r" "r \<le> 100"
    using assms(2) by (cases x) (simp_all add: percent_def)
  have "fmul (Fin r) (Fin 10) = Fin (r * 10)"
    using r(1) by (simp add: fmul_def zero_of_def)
  then have y: "rmul rd x (Fin 10) = Fin (rd (r * 10))"
    using r(1) by (simp add: rmul_def x fround_nonneg)
  have y0: "0 \<le> rd (r * 10)" using rd_nonneg [OF m z] r(1) by simp
  then have "round_half_even 0 \<le> round_half_even (rd (r * 10))" by (rule round_half_even_mono)
  then have n0: "0 \<le> round_half_even (rd (r * 10))" by (simp add: round_half_even_def)
  have i: "rint (Fin (rd (r * 10))) = Fin (of_int (round_half_even (rd (r * 10))))"
    using y0 by (simp add: zero_of_def)
  have "fdiv (Fin (of_int (round_half_even (rd (r * 10))))) (Fin 10)
      = Fin (of_int (round_half_even (rd (r * 10))) / 10)"
    by (simp add: fdiv_def zero_of_def)
  then have "rdiv rd (Fin (of_int (round_half_even (rd (r * 10))))) (Fin 10)
      = Fin (rd (of_int (round_half_even (rd (r * 10))) / 10))"
    using n0 by (simp add: rdiv_def fround_nonneg)
  then have "np_round1 rd x = Fin (rd (real_of_int (round_half_even (rd (r * 10))) / 10))"
    by (simp add: np_round1_def y i del: rint.simps)
  then show ?thesis
    using x round_half_even_near [of "rd (r * 10)"] by blast
qed


lemma length_diff_from_r: "length (diff_from_r rd p xs) = length xs"
  by (induction xs arbitrary: p) simp_all

lemma length_diff_r: "length (diff_r rd xs) = length xs"
  by (cases xs) (simp_all add: diff_r_def length_diff_from_r)

lemma length_ewm_loop_r: "length (ewm_loop_r rd nw owf w ow xs) = length xs"
  by (induction xs arbitrary: w ow) (simp_all add: Let_def)

lemma length_ewm_mean_r: "length (ewm_mean_r rd com xs) = length xs"
proof (cases xs)
  case Nil
  then show ?thesis by (simp add: ewm_mean_r_def)
next
  case (Cons x rest)
  then show ?thesis by (simp add: ewm_mean_r_def Let_def length_ewm_loop_r)
qed

lemma length_macd_r: "length (compute_macd_diff_r rd xs) = length xs"
  by (simp add: compute_macd_diff_r_def Let_def length_ewm_mean_r)

lemma compute_rsi_r_result:
  assumes "monotone_rounding rd"
  shows "\<exists>rsis. compute_rsi_r rd closes 14 = Inr rsis \<and> length rsis = length closes
           \<and> (\<forall>v \<in> set rsis. v = NaN \<or> percent v)"
proof -
  have m: "\<forall>x y. x \<le> y \<longrightarrow> rd x \<le> rd y" and z: "rd 0 = 0" and o: "rd 1 = 1"
    and a0: "0 < rd (1 / 14)"
    using assms(1) by (simp_all add: monotone_rounding_def)
  have a1: "rd (1 / 14) \<le> 1" using m o by (metis divide_le_eq_1_pos numeral_One one_le_numeral zero_less_numeral less_eq_real_def)
  define com where "com = rd (rd (1 - rd (1 / 14)) / rd (1 / 14))"
  have "0 \<le> rd (1 - rd (1 / 14))" using rd_nonneg [OF m z] a1 by simp
  then have "0 \<le> rd (1 - rd (1 / 14)) / rd (1 / 14)" using a0 by simp
  then have com: "0 \<le> com" unfolding com_def using rd_nonneg [OF m z] by simp
  define gain where "gain = map clip_lower0 (diff_r rd closes)"
  define loss where "loss = map (\<lambda>d. fneg (clip_upper0 d)) (diff_r rd closes)"
  have g: "\<forall>y \<in> set (ewm_mean_r rd com gain). not_neg y"
    by (intro not_neg_ewm_mean [OF m z o com]) (simp add: gain_def not_neg_gain)
  have l: "\<forall>y \<in> set (ewm_mean_r rd com loss). not_neg y"
    by (intro not_neg_ewm_mean [OF m z o com]) (simp add: loss_def not_neg_loss)
  define rsis where "rsis = map (\<lambda>r. rsub rd (Fin 100) (rdiv rd (Fin 100) (radd rd (Fin 1) r)))
      (map2 (rdiv rd) (ewm_mean_r rd com gain) (ewm_mean_r rd com loss))"
  have run: "compute_rsi_r rd closes 14 = Inr rsis"
    using a0 a1 by (simp add: compute_rsi_r_def Let_def rsis_def com_def gain_def loss_def)
  have len: "length rsis = length closes"
    by (simp add: rsis_def length_ewm_mean_r gain_def loss_def length_diff_r)
  have "v = NaN \<or> percent v" if "v \<in> set rsis" for v
  proof -
    from that obtain a b where ab: "(a, b) \<in> set (zip (ewm_mean_r rd com gain) (ewm_mean_r rd com loss))"
      and v: "v = rsub rd (Fin 100) (rdiv rd (Fin 100) (radd rd (Fin 1) (rdiv rd a b)))"
      by (auto simp: rsis_def)
    have "not_neg a" "not_neg b"
      using ab g l by (meson set_zip_leftD, meson set_zip_rightD)
    then show ?thesis using rsi_percent_or_nan [OF assms(1)] v by simp
  qed
  then show ?thesis using run len by blast
qed

text \<open>
  Claim C7, as the code has it. The rounding is one that is monotone, leaves 0, 1, 50,
  -50, 100 and 1000 unchanged and gives \<^verbatim>\<open>1/14\<close> a positive value, as the rounding of
  doubles does. When \<^verbatim>\<open>get_klines\<close> returns a series, the series is not empty,
  \<^verbatim>\<open>compute_rsi\<close> returns, and \<^verbatim>\<open>analyze_symbol\<close> returns the symbol with the direction long
  if the last MACD-minus-signal value is greater than 0 and short otherwise. When the
  last RSI is a number, it lies between 0 and 100, the rate is \<^verbatim>\<open>round(strength, 1)\<close> of
  the strength \<open>|RSI - 50| / 50 * 100\<close> computed in doubles, and both the strength and
  the rate lie between 0 and 100, with no clamp applied. The rate is the double of a
  number with one decimal, \<open>n / 10\<close> for an integer \<open>n\<close> nearest to ten times the strength.
\<close>

theorem indicator_policy:
  assumes "monotone_rounding rd" and "get_klines datetime_ok reply = Inr closes"
  shows "closes \<noteq> []
       \<and> (\<exists>rsis. compute_rsi_r rd closes 14 = Inr rsis \<and> rsis \<noteq> []
            \<and> fst (analyze_symbol rd datetime_ok reply s) = s
            \<and> fst (snd (analyze_symbol rd datetime_ok reply s)) =
                (if fless (Fin 0) (last (compute_macd_diff_r rd closes)) then DLong else DShort)
            \<and> (last rsis \<noteq> NaN \<longrightarrow>
                 percent (last rsis)
                 \<and> snd (snd (analyze_symbol rd datetime_ok reply s)) =
                     np_round1 rd (rmul rd (rdiv rd (fabs (rsub rd (last rsis) (Fin 50))) (Fin 50)) (Fin 100))
                 \<and> percent (rmul rd (rdiv rd (fabs (rsub rd (last rsis) (Fin 50))) (Fin 50)) (Fin 100))
                 \<and> percent (snd (snd (analyze_symbol rd datetime_ok reply s)))
                 \<and> (\<exists>sv n. rmul rd (rdiv rd (fabs (rsub rd (last rsis) (Fin 50))) (Fin 50)) (Fin 100) = Fin sv
                        \<and> \<bar>real_of_int n - rd (sv * 10)\<bar> \<le> 1 / 2
                        \<and> snd (snd (analyze_symbol rd datetime_ok reply s)) = Fin (rd (real_of_int n / 10)))))"
proof -
  have ne: "closes \<noteq> []" using get_klines_nonempty [OF assms(2)] .
  obtain rsis where run: "compute_rsi_r rd closes 14 = Inr rsis"
    and len: "length rsis = length closes" and cls: "\<forall>v \<in> set rsis. v = NaN \<or> percent v"
    using compute_rsi_r_result [OF assms(1)] by blast
  have r_ne: "rsis \<noteq> []" using ne len by auto
  have m_ne: "compute_macd_diff_r rd closes \<noteq> []"
    using ne length_macd_r [of rd closes] by auto
  have res: "analyze_symbol rd datetime_ok reply s =
      (s, if fless (Fin 0) (last (compute_macd_diff_r rd closes)) then DLong else DShort,
       np_round1 rd (rmul rd (rdiv rd (fabs (rsub rd (last rsis) (Fin 50))) (Fin 50)) (Fin 100)))"
    using r_ne m_ne by (simp add: analyze_symbol_def assms(2) run iloc_last_def Let_def)
  have rng: "percent (last rsis)" if "last rsis \<noteq> NaN"
    using cls r_ne that last_in_set by blast
  have st: "percent (rmul rd (rdiv rd (fabs (rsub rd (last rsis) (Fin 50))) (Fin 50)) (Fin 100))"
    if "last rsis \<noteq> NaN"
    using strength_percent [OF assms(1) rng [OF that]] .
  have rt: "percent (np_round1 rd (rmul rd (rdiv rd (fabs (rsub rd (last rsis) (Fin 50))) (Fin 50)) (Fin 100)))"
    if "last rsis \<noteq> NaN"
    using round1_percent [OF assms(1) st [OF that]] .
  have nr: "\<exists>sv n. rmul rd (rdiv rd (fabs (rsub rd (last rsis) (Fin 50))) (Fin 50)) (Fin 100) = Fin sv
      \<and> \<bar>real_of_int n - rd (sv * 10)\<bar> \<le> 1 / 2
      \<and> np_round1 rd (rmul rd (rdiv rd (fabs (rsub rd (last rsis) (Fin 50))) (Fin 50)) (Fin 100))
            = Fin (rd (real_of_int n / 10))"
    if "last rsis \<noteq> NaN"
    using round1_nearest [OF assms(1) st [OF that]] .
  show ?thesis
    using ne run r_ne rng st rt nr by (auto simp: res)
qed

lemma doubles_roundings:
  "binary64 (1 / 14) = 2573485501354569 / 36028797018963968"
  "binary64 (- 1) = - 1"
  "binary64 (19) = 19"
  "binary64 (33455311517609399 / 36028797018963968) = 4181913939701175 / 4503599627370496"
  "binary64 (11151770505869800 / 857828500451523) = 7318349394477057 / 562949953421312"
  "binary64 (7881299347898369 / 562949953421312) = 7881299347898369 / 562949953421312"
  "binary64 (562949953421312 / 7881299347898369) = 2573485501354569 / 36028797018963968"
  "binary64 (4181913939701175 / 4503599627370496) = 4181913939701175 / 4503599627370496"
  "binary64 (0) = 0"
  "binary64 (48896224525736811 / 36028797018963968) = 6112028065717101 / 4503599627370496"
  "binary64 (6112028065717101 / 4503599627370496) = 6112028065717101 / 4503599627370496"
  "binary64 (36028797018963969 / 36028797018963968) = 1"
  "binary64 (2037342688572367 / 1393971313233725) = 3291092035386131 / 2251799813685248"
  "binary64 (1) = 1"
  "binary64 (100) = 100"
  "binary64 (5542891849071379 / 2251799813685248) = 5542891849071379 / 2251799813685248"
  "binary64 (225179981368524800 / 5542891849071379) = 5717460464435201 / 140737488355328"
  "binary64 (8356288371097599 / 140737488355328) = 8356288371097599 / 140737488355328"
  "binary64 (11 / 2) = 11 / 2"
  "binary64 (13 / 2) = 13 / 2"
  "binary64 (2 / 13) = 1385722962267845 / 9007199254740992"
  "binary64 (7621476292473147 / 9007199254740992) = 7621476292473147 / 9007199254740992"
  "binary64 (38107381462365735 / 2251799813685248) = 4763422682795717 / 281474976710656"
  "binary64 (26328736283089055 / 9007199254740992) = 822773008846533 / 281474976710656"
  "binary64 (2793097845821125 / 140737488355328) = 2793097845821125 / 140737488355328"
  "binary64 (21287529014483521326725227830375 / 1267650600228229401496703205376) = 4726780969851135 / 281474976710656"
  "binary64 (26328736283089055 / 4503599627370496) = 822773008846533 / 140737488355328"
  "binary64 (6372326987544201 / 281474976710656) = 6372326987544201 / 281474976710656"
  "binary64 (25 / 2) = 25 / 2"
  "binary64 (27 / 2) = 27 / 2"
  "binary64 (2 / 27) = 667199944795629 / 9007199254740992"
  "binary64 (8339999309945363 / 9007199254740992) = 8339999309945363 / 9007199254740992"
  "binary64 (41699996549726815 / 2251799813685248) = 1303124892178963 / 70368744177664"
  "binary64 (12676798951116951 / 9007199254740992) = 1584599868889619 / 1125899906842624"
  "binary64 (22434598143753027 / 1125899906842624) = 5608649535938257 / 281474976710656"
  "binary64 (5608649535938257 / 281474976710656) = 5608649535938257 / 281474976710656"
  "binary64 (46776133259450443797907611452291 / 2535301200456458802993406410752) = 5193194014757645 / 281474976710656"
  "binary64 (12676798951116951 / 4503599627370496) = 1584599868889619 / 562949953421312"
  "binary64 (11970987898404909 / 562949953421312) = 2992746974601227 / 140737488355328"
  "binary64 (2992746974601227 / 140737488355328) = 2992746974601227 / 140737488355328"
  "binary64 (- (22453844296007 / 281474976710656)) = - (22453844296007 / 281474976710656)"
  "binary64 (386833038341747 / 281474976710656) = 386833038341747 / 281474976710656"
  "binary64 (4) = 4"
  "binary64 (5) = 5"
  "binary64 (1 / 5) = 3602879701896397 / 18014398509481984"
  "binary64 (14411518807585587 / 18014398509481984) = 3602879701896397 / 4503599627370496"
  "binary64 (3602879701896397 / 4503599627370496) = 3602879701896397 / 4503599627370496"
  "binary64 (- (80898499843625814319314786779 / 5070602400912917605986812821504)) = - (2299273655911117 / 144115188075855872)"
  "binary64 (- (2299273655911117 / 144115188075855872)) = - (2299273655911117 / 144115188075855872)"
  "binary64 (18014398509481985 / 18014398509481984) = 1"
  "binary64 (- (8284006383987284106873774545449 / 649037107316853453566312041152512)) = - (7357675698915575 / 576460752303423488)"
  "binary64 (1393712901864390942248073985559 / 5070602400912917605986812821504) = 2475731445387181 / 9007199254740992"
  "binary64 (151089136805864009 / 576460752303423488) = 2360767762591625 / 9007199254740992"
  "binary64 (2360767762591625 / 9007199254740992) = 2360767762591625 / 9007199254740992"
  "binary64 (- (9197094623644467 / 144115188075855872)) = - (2299273655911117 / 36028797018963968)"
  "binary64 (10017889464344279 / 9007199254740992) = 1252236183043035 / 1125899906842624"
  "binary64 (1319413953331199 / 140737488355328) = 1319413953331199 / 140737488355328"
  "binary64 (1319413953331199 / 7036874417766400) = 6755399441055739 / 36028797018963968"
  "binary64 (168884986026393475 / 9007199254740992) = 1319413953331199 / 70368744177664"
  "binary64 (6597069766655995 / 35184372088832) = 6597069766655995 / 35184372088832"
  "binary64 (187 / 10) = 5263582064489267 / 281474976710656"
  by (simp_all add: b64)

lemma doubles_operations:
  "rsub binary64 (Fin 19) (Fin 20) = Fin (- 1)"
  "rsub binary64 (Fin 38) (Fin 19) = Fin 19"
  "rmul binary64 (Fin (4181913939701175 / 4503599627370496)) (Fin 0) = Fin 0"
  "rmul binary64 (Fin (2573485501354569 / 36028797018963968)) (Fin 19) = Fin (6112028065717101 / 4503599627370496)"
  "radd binary64 (Fin 0) (Fin (6112028065717101 / 4503599627370496)) = Fin (6112028065717101 / 4503599627370496)"
  "rdiv binary64 (Fin (6112028065717101 / 4503599627370496)) (Fin 1) = Fin (6112028065717101 / 4503599627370496)"
  "rmul binary64 (Fin (4181913939701175 / 4503599627370496)) (Fin 1) = Fin (4181913939701175 / 4503599627370496)"
  "rmul binary64 (Fin (2573485501354569 / 36028797018963968)) NZero = NZero"
  "radd binary64 (Fin (4181913939701175 / 4503599627370496)) NZero = Fin (4181913939701175 / 4503599627370496)"
  "rdiv binary64 (Fin (4181913939701175 / 4503599627370496)) (Fin 1) = Fin (4181913939701175 / 4503599627370496)"
  "rdiv binary64 NaN NaN = NaN"
  "rdiv binary64 (Fin 0) (Fin 1) = Fin 0"
  "rdiv binary64 (Fin (6112028065717101 / 4503599627370496)) (Fin (4181913939701175 / 4503599627370496)) = Fin (3291092035386131 / 2251799813685248)"
  "radd binary64 (Fin 1) NaN = NaN"
  "rdiv binary64 (Fin 100) NaN = NaN"
  "rsub binary64 (Fin 100) NaN = NaN"
  "radd binary64 (Fin 1) (Fin 0) = Fin 1"
  "rdiv binary64 (Fin 100) (Fin 1) = Fin 100"
  "rsub binary64 (Fin 100) (Fin 100) = Fin 0"
  "radd binary64 (Fin 1) (Fin (3291092035386131 / 2251799813685248)) = Fin (5542891849071379 / 2251799813685248)"
  "rdiv binary64 (Fin 100) (Fin (5542891849071379 / 2251799813685248)) = Fin (5717460464435201 / 140737488355328)"
  "rsub binary64 (Fin 100) (Fin (5717460464435201 / 140737488355328)) = Fin (8356288371097599 / 140737488355328)"
  "rmul binary64 (Fin (7621476292473147 / 9007199254740992)) (Fin 20) = Fin (4763422682795717 / 281474976710656)"
  "rmul binary64 (Fin (1385722962267845 / 9007199254740992)) (Fin 19) = Fin (822773008846533 / 281474976710656)"
  "radd binary64 (Fin (4763422682795717 / 281474976710656)) (Fin (822773008846533 / 281474976710656)) = Fin (2793097845821125 / 140737488355328)"
  "rdiv binary64 (Fin (2793097845821125 / 140737488355328)) (Fin 1) = Fin (2793097845821125 / 140737488355328)"
  "rmul binary64 (Fin (7621476292473147 / 9007199254740992)) (Fin (2793097845821125 / 140737488355328)) = Fin (4726780969851135 / 281474976710656)"
  "rmul binary64 (Fin (1385722962267845 / 9007199254740992)) (Fin 38) = Fin (822773008846533 / 140737488355328)"
  "radd binary64 (Fin (4726780969851135 / 281474976710656)) (Fin (822773008846533 / 140737488355328)) = Fin (6372326987544201 / 281474976710656)"
  "rdiv binary64 (Fin (6372326987544201 / 281474976710656)) (Fin 1) = Fin (6372326987544201 / 281474976710656)"
  "rmul binary64 (Fin (8339999309945363 / 9007199254740992)) (Fin 20) = Fin (1303124892178963 / 70368744177664)"
  "rmul binary64 (Fin (667199944795629 / 9007199254740992)) (Fin 19) = Fin (1584599868889619 / 1125899906842624)"
  "radd binary64 (Fin (1303124892178963 / 70368744177664)) (Fin (1584599868889619 / 1125899906842624)) = Fin (5608649535938257 / 281474976710656)"
  "rdiv binary64 (Fin (5608649535938257 / 281474976710656)) (Fin 1) = Fin (5608649535938257 / 281474976710656)"
  "rmul binary64 (Fin (8339999309945363 / 9007199254740992)) (Fin (5608649535938257 / 281474976710656)) = Fin (5193194014757645 / 281474976710656)"
  "rmul binary64 (Fin (667199944795629 / 9007199254740992)) (Fin 38) = Fin (1584599868889619 / 562949953421312)"
  "radd binary64 (Fin (5193194014757645 / 281474976710656)) (Fin (1584599868889619 / 562949953421312)) = Fin (2992746974601227 / 140737488355328)"
  "rdiv binary64 (Fin (2992746974601227 / 140737488355328)) (Fin 1) = Fin (2992746974601227 / 140737488355328)"
  "rsub binary64 (Fin 20) (Fin 20) = Fin 0"
  "rsub binary64 (Fin (2793097845821125 / 140737488355328)) (Fin (5608649535938257 / 281474976710656)) = Fin (- (22453844296007 / 281474976710656))"
  "rsub binary64 (Fin (6372326987544201 / 281474976710656)) (Fin (2992746974601227 / 140737488355328)) = Fin (386833038341747 / 281474976710656)"
  "rmul binary64 (Fin (3602879701896397 / 4503599627370496)) (Fin 0) = Fin 0"
  "rmul binary64 (Fin (3602879701896397 / 18014398509481984)) (Fin (- (22453844296007 / 281474976710656))) = Fin (- (2299273655911117 / 144115188075855872))"
  "radd binary64 (Fin 0) (Fin (- (2299273655911117 / 144115188075855872))) = Fin (- (2299273655911117 / 144115188075855872))"
  "rdiv binary64 (Fin (- (2299273655911117 / 144115188075855872))) (Fin 1) = Fin (- (2299273655911117 / 144115188075855872))"
  "rmul binary64 (Fin (3602879701896397 / 4503599627370496)) (Fin (- (2299273655911117 / 144115188075855872))) = Fin (- (7357675698915575 / 576460752303423488))"
  "rmul binary64 (Fin (3602879701896397 / 18014398509481984)) (Fin (386833038341747 / 281474976710656)) = Fin (2475731445387181 / 9007199254740992)"
  "radd binary64 (Fin (- (7357675698915575 / 576460752303423488))) (Fin (2475731445387181 / 9007199254740992)) = Fin (2360767762591625 / 9007199254740992)"
  "rdiv binary64 (Fin (2360767762591625 / 9007199254740992)) (Fin 1) = Fin (2360767762591625 / 9007199254740992)"
  "rsub binary64 (Fin 0) (Fin 0) = Fin 0"
  "rsub binary64 (Fin (- (22453844296007 / 281474976710656))) (Fin (- (2299273655911117 / 144115188075855872))) = Fin (- (2299273655911117 / 36028797018963968))"
  "rsub binary64 (Fin (386833038341747 / 281474976710656)) (Fin (2360767762591625 / 9007199254740992)) = Fin (1252236183043035 / 1125899906842624)"
  "rsub binary64 (Fin (8356288371097599 / 140737488355328)) (Fin 50) = Fin (1319413953331199 / 140737488355328)"
  "rdiv binary64 (Fin (1319413953331199 / 140737488355328)) (Fin 50) = Fin (6755399441055739 / 36028797018963968)"
  "rmul binary64 (Fin (6755399441055739 / 36028797018963968)) (Fin 100) = Fin (1319413953331199 / 70368744177664)"
  "rmul binary64 (Fin (1319413953331199 / 70368744177664)) (Fin 10) = Fin (6597069766655995 / 35184372088832)"
  "rdiv binary64 (Fin 187) (Fin 10) = Fin (5263582064489267 / 281474976710656)"
  by (simp_all add: radd_def rsub_def rmul_def rdiv_def fsub_def fmul_def fdiv_def fround_def
      zero_of_def inf_of_def doubles_roundings)

lemma doubles_rsi:
  "compute_rsi_r binary64 [Fin 20, Fin 19, Fin 38] 14 = Inr [NaN, Fin 0, Fin (8356288371097599 / 140737488355328)]"
  by (simp add: compute_rsi_r_def diff_r_def clip_lower0_def clip_upper0_def ewm_mean_r_def
      feq_def Let_def doubles_roundings doubles_operations)

lemma doubles_macd:
  "compute_macd_diff_r binary64 [Fin 20, Fin 19, Fin 38] = [Fin 0, Fin (- (2299273655911117 / 36028797018963968)), Fin (1252236183043035 / 1125899906842624)]"
  by (simp add: compute_macd_diff_r_def ewm_mean_r_def feq_def Let_def doubles_roundings
      doubles_operations)

lemma doubles_strength:
  "rmul binary64 (rdiv binary64 (fabs (rsub binary64 (Fin (8356288371097599 / 140737488355328)) (Fin 50))) (Fin 50)) (Fin 100) = Fin (1319413953331199 / 70368744177664)"
  by (simp add: doubles_operations)

lemma doubles_rate:
  "np_round1 binary64 (Fin (1319413953331199 / 70368744177664)) = Fin (5263582064489267 / 281474976710656)"
  by (simp add: np_round1_def round_half_even_def doubles_operations)


lemma binary64_rounding: "monotone_rounding binary64"
proof -
  have "binary64 0 = 0" "binary64 1 = 1" "binary64 50 = 50" "binary64 (- 50) = - 50"
    "binary64 100 = 100" "binary64 1000 = 1000" "0 < binary64 (1 / 14)"
    by (simp_all add: b64)
  then show ?thesis
    using binary64_mono by (simp add: monotone_rounding_def)
qed

lemma doubles_klines:
  "get_klines all_dates (Reply 200 (Some [candle 20, candle 19, candle 38])) = Inr [Fin 20, Fin 19, Fin 38]"
  by (auto simp: get_klines_def candle_def cell_def all_dates_def Let_def)

lemma doubles_decimals:
  "binary64 (187 / 10) = 5263582064489267 / 281474976710656"
  "binary64 (59.37499999999999) = 8356288371097599 / 140737488355328"
  "binary64 (18.749999999999986) = 1319413953331199 / 70368744177664"
  by (simp_all add: b64)

text \<open>
  The rounding of doubles is such a rounding. The closes 20, 19, 38 on the code, in
  doubles: the last RSI is 59.37499999999999, the strength 18.749999999999986, the
  direction long and the published rate 18.7.
\<close>

theorem indicator_policy_witness:
  "monotone_rounding binary64
   \<and> get_klines all_dates (Reply 200 (Some [candle 20, candle 19, candle 38])) = Inr [Fin 20, Fin 19, Fin 38]
   \<and> compute_rsi_r binary64 [Fin 20, Fin 19, Fin 38] 14 = Inr [NaN, Fin 0, Fin (binary64 (59.37499999999999))]
   \<and> analyze_symbol binary64 all_dates (Reply 200 (Some [candle 20, candle 19, candle 38])) ''BTC_USDT''
        = (''BTC_USDT'', DLong, Fin (binary64 (187 / 10)))
   \<and> percent (Fin (binary64 (187 / 10)))"
proof -
  let ?r = "analyze_symbol binary64 all_dates (Reply 200 (Some [candle 20, candle 19, candle 38])) ''BTC_USDT''"
  note inst = indicator_policy [OF binary64_rounding doubles_klines, of "''BTC_USDT''"]
  have a: "fst ?r = ''BTC_USDT''" using inst by (simp add: doubles_rsi)
  have b: "fst (snd ?r) = DLong" using inst by (simp add: doubles_rsi doubles_macd)
  have l: "last [NaN, Fin 0, Fin (8356288371097599 / 140737488355328)] \<noteq> NaN" by simp
  have c: "snd (snd ?r) = Fin (5263582064489267 / 281474976710656)"
    using inst l by (simp add: doubles_rsi doubles_strength doubles_rate)
  have p: "percent (Fin (5263582064489267 / 281474976710656))"
    by (simp add: percent_def)
  have "?r = (fst ?r, fst (snd ?r), snd (snd ?r))" by simp
  then have "?r = (''BTC_USDT'', DLong, Fin (5263582064489267 / 281474976710656))"
    using a b c by simp
  then show ?thesis
    unfolding doubles_decimals using binary64_rounding doubles_klines doubles_rsi p by simp
qed

lemma doubles_analysis:
  "analyze_symbol binary64 all_dates (Reply 200 (Some [candle 20, candle 19, candle 38])) ''BTC_USDT''
     = (''BTC_USDT'', DLong, Fin (5263582064489267 / 281474976710656))"
  by (simp add: analyze_symbol_def doubles_klines doubles_rsi doubles_macd iloc_last_def doubles_strength doubles_rate)

text \<open>
  Claim C7 as stated fails: the published rate is the strength rounded to one decimal,
  not the strength. For the closes 20, 19, 38 the strength is 18.749999999999986 and
  the rate 18.7.
\<close>

theorem rate_rounded_counterexample:
  "analyze_symbol binary64 all_dates (Reply 200 (Some [candle 20, candle 19, candle 38])) ''BTC_USDT''
     = (''BTC_USDT'', DLong, Fin (binary64 (187 / 10)))
   \<and> compute_rsi_r binary64 [Fin 20, Fin 19, Fin 38] 14 = Inr [NaN, Fin 0, Fin (binary64 (59.37499999999999))]
   \<and> rmul binary64 (rdiv binary64 (fabs (rsub binary64 (Fin (binary64 (59.37499999999999))) (Fin 50))) (Fin 50)) (Fin 100)
        = Fin (binary64 (18.749999999999986))
   \<and> binary64 (18.749999999999986) \<noteq> binary64 (187 / 10)"
  unfolding doubles_decimals using doubles_analysis doubles_rsi doubles_strength by simp

section \<open>The retry policy of test.py\<close>

lemma urlopen_bound:
  "snd (urlopen r m outcomes n) \<le> n + 1 + nat (total r)"
proof (induction r m outcomes n rule: urlopen.induct)
  case (1 r m outcomes n)
  show ?case
  proof (cases "outcomes n")
    case ConnectFailure
    show ?thesis
    proof (cases "is_exhausted (r\<lparr>total := total r - 1, connect := connect r - 1\<rparr>)")
      case True
      with ConnectFailure show ?thesis by (subst urlopen.simps) simp
    next
      case False
      then have t: "0 \<le> total r - 1" by (simp add: is_exhausted_def)
      from "1.IH"(1) [OF ConnectFailure False] t ConnectFailure False
      show ?thesis by (subst urlopen.simps) simp
    qed
  next
    case ReadFailure
    show ?thesis
    proof (cases "m \<notin> set (allowed_methods r)")
      case True
      with ReadFailure show ?thesis by (subst urlopen.simps) simp
    next
      case a: False
      show ?thesis
      proof (cases "is_exhausted (r\<lparr>total := total r - 1, read := read r - 1\<rparr>)")
        case True
        with ReadFailure a show ?thesis by (subst urlopen.simps) simp
      next
        case False
        then have t: "0 \<le> total r - 1" by (simp add: is_exhausted_def)
        from "1.IH"(2) [OF ReadFailure a False] t ReadFailure a False
        show ?thesis by (subst urlopen.simps) simp
      qed
    qed
  next
    case (Status c)
    show ?thesis
    proof (cases "c \<in> set (status_forcelist r) \<and> m \<in> set (allowed_methods r)")
      case False
      with Status show ?thesis by (subst urlopen.simps) auto
    next
      case a: True
      show ?thesis
      proof (cases "is_exhausted (r\<lparr>total := total r - 1\<rparr>)")
        case True
        with Status a show ?thesis by (subst urlopen.simps) simp
      next
        case False
        then have t: "0 \<le> total r - 1" by (simp add: is_exhausted_def)
        from "1.IH"(3) [OF Status a False] t Status a False
        show ?thesis by (subst urlopen.simps) simp
      qed
    qed
  qed
qed


lemma always_refused:
  assumes "\<forall>n. outcomes n = ConnectFailure"
  shows "total r = int k \<Longrightarrow> connect r = int k \<Longrightarrow> 0 \<le> read r \<Longrightarrow>
         urlopen r m outcomes n = (Inl MaxRetryError, n + k + 1)"
proof (induction k arbitrary: r n)
  case 0
  then show ?case using assms by (subst urlopen.simps) (simp add: is_exhausted_def)
next
  case (Suc k)
  let ?r = "r\<lparr>total := total r - 1, connect := connect r - 1\<rparr>"
  have ne: "\<not> is_exhausted ?r" using Suc.prems by (simp add: is_exhausted_def)
  have "urlopen ?r m outcomes (Suc n) = (Inl MaxRetryError, Suc n + k + 1)"
    using Suc.prems by (intro Suc.IH) simp_all
  then show ?case using assms ne by (subst urlopen.simps) simp
qed

text \<open>
  Claim C9, as the code has it. The adapter's retries are bounded: with \<^verbatim>\<open>retries\<close> \<open>\<ge> 0\<close>
  (default 3) a request is attempted at most \<open>retries + 1\<close> times, whatever the attempts
  end in, and a request whose every attempt is refused is given up with MaxRetryError
  after exactly \<open>retries + 1\<close> attempts.
\<close>

theorem retries_are_bounded:
  assumes "0 \<le> retries"
  shows "snd (urlopen (create_session retries backoff forcelist) m outcomes 0) \<le> nat retries + 1
       \<and> ((\<forall>n. outcomes n = ConnectFailure) \<longrightarrow>
            urlopen (create_session retries backoff forcelist) m outcomes 0
              = (Inl MaxRetryError, nat retries + 1))"
proof (intro conjI impI)
  show "snd (urlopen (create_session retries backoff forcelist) m outcomes 0) \<le> nat retries + 1"
    using urlopen_bound [of "create_session retries backoff forcelist" m outcomes 0]
    by (simp add: create_session_def)
next
  assume a: "\<forall>n. outcomes n = ConnectFailure"
  show "urlopen (create_session retries backoff forcelist) m outcomes 0
              = (Inl MaxRetryError, nat retries + 1)"
    using always_refused [OF a, of "create_session retries backoff forcelist" "nat retries" m 0] assms
    by (simp add: create_session_def)
qed

text \<open>The default session: two 502 answers then a 200, and a host that refuses every attempt.\<close>

theorem retries_are_bounded_witness:
  "snd (urlopen (create_session 3 (3 / 10) [500, 502, 504]) ''GET''
          (\<lambda>n. if n < 2 then Status 502 else Status 200) 0) \<le> 4
   \<and> urlopen (create_session 3 (3 / 10) [500, 502, 504]) ''GET'' (\<lambda>_. ConnectFailure) 0
       = (Inl MaxRetryError, 4)"
proof -
  have r: "(0::int) \<le> 3" by simp
  show ?thesis
    using retries_are_bounded [OF r, of "3 / 10" "[500, 502, 504]" "''GET''"
        "\<lambda>n. if n < 2 then Status 502 else Status 200"]
      retries_are_bounded [OF r, of "3 / 10" "[500, 502, 504]" "''GET''" "\<lambda>_. ConnectFailure"]
    by simp
qed

text \<open>
  Claim C9 as stated fails: the default session gives up a GET that is answered 500 every
  time, or refused every time, after 4 attempts.
\<close>

theorem retry_gives_up_counterexample:
  "urlopen (create_session 3 (3 / 10) [500, 502, 504]) ''GET'' (\<lambda>_. Status 500) 0
     = (Inl MaxRetryError, 4)
   \<and> urlopen (create_session 3 (3 / 10) [500, 502, 504]) ''GET'' (\<lambda>_. ConnectFailure) 0
     = (Inl MaxRetryError, 4)"
  by (simp add: urlopen.simps create_session_def is_exhausted_def)


section \<open>The outcomes of a failed fetch\<close>

lemma web_never_raises: "\<exists>r. fetch_kline_web P fit_predict resp s = Inr (s, r)"
  by (auto simp: fetch_kline_web_def split: sum.splits option.splits)

text \<open>
  Claim C2, as the code has it. \<^verbatim>\<open>fetch_kline\<close> returns the request-failed tag for a failed
  request in both classifier variants. In api\_utils.py a payload whose \<^verbatim>\<open>data\<close> is absent
  or empty gets the no-response tag; in web.py only a payload without the \<^verbatim>\<open>data\<close> key
  does, and an empty \<^verbatim>\<open>data\<close> list gets the insufficient-data tag. A payload of 1 to 24
  well-formed bars gets the insufficient-data tag in both. \<^verbatim>\<open>fetch_kline\<close> of web.py never
  raises. In test.py \<^verbatim>\<open>analyze_symbol\<close> turns every exception of \<^verbatim>\<open>get_klines\<close> into the one
  default result, long with rate 0.
\<close>

theorem fetch_failure_outcomes:
  "fetch_kline P dm fit_predict (Failed e) s = Inr (s, RequestFailed)
   \<and> fetch_kline_web P fit_predict (Failed e) s = Inr (s, RequestFailed)
   \<and> (map_of kvs ''data'' = None \<or> (\<exists>rows. map_of kvs ''data'' = Some rows \<and> \<not> truthy rows)
        \<longrightarrow> fetch_kline P dm fit_predict (Body (JObj kvs)) s = Inr (s, NoResponse))
   \<and> (map_of kvs ''data'' = None
        \<longrightarrow> fetch_kline_web P fit_predict (Body (JObj kvs)) s = Inr (s, NoResponse))
   \<and> (map_of kvs ''data'' = Some (JArr [])
        \<longrightarrow> fetch_kline_web P fit_predict (Body (JObj kvs)) s = Inr (s, InsufficientData))
   \<and> (map_of kvs ''data'' = Some rows \<and> py_iter rows = Inr ks \<and> decode_rows P ks = Inr df
          \<and> 0 < length df \<and> length df < 25
        \<longrightarrow> fetch_kline P dm fit_predict (Body (JObj kvs)) s = Inr (s, InsufficientData)
            \<and> fetch_kline_web P fit_predict (Body (JObj kvs)) s = Inr (s, InsufficientData))
   \<and> (\<exists>r. fetch_kline_web P fit_predict resp s = Inr (s, r))
   \<and> (get_klines datetime_ok reply = Inl e' \<longrightarrow> analyze_symbol rd datetime_ok reply s = (s, DLong, Fin 0))"
proof (intro conjI impI)
  show "fetch_kline P dm fit_predict (Failed e) s = Inr (s, RequestFailed)"
    by (simp add: fetch_kline_def try_frame_def)
  show "fetch_kline_web P fit_predict (Failed e) s = Inr (s, RequestFailed)"
    by (simp add: fetch_kline_web_def try_frame_web_def)
  show "\<exists>r. fetch_kline_web P fit_predict resp s = Inr (s, r)"
    by (rule web_never_raises)
next
  assume "map_of kvs ''data'' = None \<or> (\<exists>rows. map_of kvs ''data'' = Some rows \<and> \<not> truthy rows)"
  then show "fetch_kline P dm fit_predict (Body (JObj kvs)) s = Inr (s, NoResponse)"
    by (auto simp: fetch_kline_def try_frame_def bind_err_def)
next
  assume "map_of kvs ''data'' = None"
  then show "fetch_kline_web P fit_predict (Body (JObj kvs)) s = Inr (s, NoResponse)"
    by (simp add: fetch_kline_web_def try_frame_web_def bind_err_def)
next
  assume "map_of kvs ''data'' = Some (JArr [])"
  then show "fetch_kline_web P fit_predict (Body (JObj kvs)) s = Inr (s, InsufficientData)"
    by (simp add: fetch_kline_web_def try_frame_web_def bind_err_def)
next
  assume a: "map_of kvs ''data'' = Some rows \<and> py_iter rows = Inr ks \<and> decode_rows P ks = Inr df
          \<and> 0 < length df \<and> length df < 25"
  then have "ks \<noteq> []" by auto
  then have t: "truthy rows" using a iter_truthy by blast
  show "fetch_kline P dm fit_predict (Body (JObj kvs)) s = Inr (s, InsufficientData)"
    using a t by (simp add: fetch_kline_def try_frame_def bind_err_def)
  show "fetch_kline_web P fit_predict (Body (JObj kvs)) s = Inr (s, InsufficientData)"
    using a by (simp add: fetch_kline_web_def try_frame_web_def bind_err_def)
next
  assume "get_klines datetime_ok reply = Inl e'"
  then show "analyze_symbol rd datetime_ok reply s = (s, DLong, Fin 0)"
    by (simp add: analyze_symbol_def)
qed

text \<open>
  A timeout, an empty \<^verbatim>\<open>data\<close> list, a body without \<^verbatim>\<open>data\<close>, 24 well-formed bars, and a
  503 answer to test.py.
\<close>

theorem fetch_failure_outcomes_witness:
  "fetch_kline no_readers [] (\<lambda>_. Inr (1 / 2)) (Failed TimeoutError) ''BTC_USDT''
     = Inr (''BTC_USDT'', RequestFailed)
   \<and> fetch_kline no_readers [] (\<lambda>_. Inr (1 / 2)) (Body (JObj [(''data'', JArr [])])) ''BTC_USDT''
     = Inr (''BTC_USDT'', NoResponse)
   \<and> fetch_kline_web no_readers (\<lambda>_. Inr (1 / 2)) (Body (JObj [(''code'', JNum 0)])) ''BTC_USDT''
     = Inr (''BTC_USDT'', NoResponse)
   \<and> fetch_kline no_readers [] (\<lambda>_. Inr (1 / 2))
        (Body (JObj [(''data'', JArr (replicate 24 flat_row))])) ''BTC_USDT''
     = Inr (''BTC_USDT'', InsufficientData)
   \<and> analyze_symbol binary64 all_dates (Reply 503 None) ''BTC_USDT'' = (''BTC_USDT'', DLong, Fin 0)"
proof -
  have g: "get_klines all_dates (Reply 503 None) = Inl HTTPError" by (simp add: get_klines_def)
  have d: "decode_rows no_readers (replicate 24 flat_row) = Inr (replicate 24 flat_bar)"
    using decode_rows_replicate [OF decode_flat_row] .
  note a = fetch_failure_outcomes [of no_readers "[]" "\<lambda>_. Inr (1 / 2)" TimeoutError "''BTC_USDT''"
      "[(''data'', JArr [])]" "JArr []" "[]" "[]" "Failed TimeoutError" all_dates "Reply 503 None" HTTPError binary64]
  note b = fetch_failure_outcomes [of no_readers "[]" "\<lambda>_. Inr (1 / 2)" TimeoutError "''BTC_USDT''"
      "[(''code'', JNum 0)]" "JArr []" "[]" "[]" "Failed TimeoutError" all_dates "Reply 503 None" HTTPError binary64]
  note c = fetch_failure_outcomes [of no_readers "[]" "\<lambda>_. Inr (1 / 2)" TimeoutError "''BTC_USDT''"
      "[(''data'', JArr (replicate 24 flat_row))]" "JArr (replicate 24 flat_row)"
      "replicate 24 flat_row" "replicate 24 flat_bar" "Failed TimeoutError" all_dates "Reply 503 None" HTTPError binary64]
  have 1: "fetch_kline no_readers [] (\<lambda>_. Inr (1 / 2)) (Failed TimeoutError) ''BTC_USDT''
     = Inr (''BTC_USDT'', RequestFailed)" using a by blast
  have 2: "fetch_kline no_readers [] (\<lambda>_. Inr (1 / 2)) (Body (JObj [(''data'', JArr [])])) ''BTC_USDT''
     = Inr (''BTC_USDT'', NoResponse)" using a by simp
  have 3: "fetch_kline_web no_readers (\<lambda>_. Inr (1 / 2)) (Body (JObj [(''code'', JNum 0)])) ''BTC_USDT''
     = Inr (''BTC_USDT'', NoResponse)" using b by simp
  have 4: "fetch_kline no_readers [] (\<lambda>_. Inr (1 / 2))
        (Body (JObj [(''data'', JArr (replicate 24 flat_row))])) ''BTC_USDT''
     = Inr (''BTC_USDT'', InsufficientData)" using c d by simp
  have 5: "analyze_symbol binary64 all_dates (Reply 503 None) ''BTC_USDT'' = (''BTC_USDT'', DLong, Fin 0)"
    using a g by simp
  show ?thesis using 1 2 3 4 5 by simp
qed

text \<open>
  Claim C2 as stated fails. web.py answers an empty \<^verbatim>\<open>data\<close> list with the
  insufficient-data tag, not the no-response tag. \<^verbatim>\<open>analyze_symbol\<close> of test.py returns the
  same result for a timeout and for an empty payload, and for a single bar no failure
  outcome at all.
\<close>

theorem failure_outcomes_counterexample:
  "fetch_kline_web no_readers (\<lambda>_. Inr (1 / 2)) (Body (JObj [(''data'', JArr [])])) ''BTC_USDT''
     = Inr (''BTC_USDT'', InsufficientData)
   \<and> analyze_symbol binary64 all_dates (Unreachable TimeoutError) ''BTC_USDT'' = (''BTC_USDT'', DLong, Fin 0)
   \<and> analyze_symbol binary64 all_dates (Reply 200 (Some [])) ''BTC_USDT'' = (''BTC_USDT'', DLong, Fin 0)
   \<and> analyze_symbol binary64 all_dates (Reply 200 (Some [candle 5])) ''BTC_USDT'' = (''BTC_USDT'', DShort, NaN)"
proof -
  have p: "0 < (14::nat)" by simp
  have k: "get_klines all_dates (Reply 200 (Some [candle 5])) = Inr (map Fin [5])"
    by (auto simp: get_klines_def candle_def cell_def all_dates_def Let_def)
  have a: "0 < binary64 (1 / 14) \<and> binary64 (1 / 14) \<le> 1"
    by (simp add: b64)
  have z: "binary64 0 = 0" by (simp add: binary64_def)
  have r: "compute_rsi_r binary64 [Fin 5] 14 = Inr [NaN]"
    using a by (simp add: compute_rsi_r_def diff_r_def clip_lower0_def clip_upper0_def ewm_mean_r_def
        rdiv_def rsub_def radd_def fdiv_def fsub_def fround_def Let_def)
  have m: "compute_macd_diff_r binary64 [Fin 5] = [Fin 0]"
    by (simp add: compute_macd_diff_r_def ewm_mean_r_def rsub_def fsub_def fround_def z zero_of_def Let_def)
  have "analyze_symbol binary64 all_dates (Reply 200 (Some [candle 5])) ''BTC_USDT'' = (''BTC_USDT'', DShort, NaN)"
    by (simp add: analyze_symbol_def k r m iloc_last_def np_round1_def rmul_def rdiv_def rsub_def
        fsub_def fdiv_def fmul_def fround_def)
  then show ?thesis
    by (simp add: fetch_kline_web_def try_frame_web_def bind_err_def analyze_symbol_def get_klines_def)
qed


end
